theory Spec2Isabelle
  imports Main
begin

section \<open>JavaScript numbers and the ECMA-262 date arithmetic\<close>

text \<open>
  The module \<^verbatim>\<open>src/dates.mjs\<close> is a thin layer over the built-in \<^verbatim>\<open>Date\<close>
  object. A \<^verbatim>\<open>Date\<close> holds one time value: a whole number of milliseconds since
  1970-01-01T00:00:00Z, or \<^verbatim>\<open>NaN\<close> (an "Invalid Date"). Every number the module
  handles is an integer or \<^verbatim>\<open>NaN\<close>, so a JavaScript number is modelled as
  \<open>int option\<close> with \<open>None\<close> for \<^verbatim>\<open>NaN\<close>. All integers involved stay far below
  \<open>2^53\<close> on every path that does not end in \<^verbatim>\<open>NaN\<close>, where doubles are exact.
  The built-ins follow ECMA-262, section "Date Objects".
\<close>

type_synonym number = "int option"

definition NaN :: number where
  "NaN = None"

definition num_add :: "number \<Rightarrow> number \<Rightarrow> number" where
  "num_add a b = (case a of None \<Rightarrow> None | Some x \<Rightarrow> (case b of None \<Rightarrow> None | Some y \<Rightarrow> Some (x + y)))"

text \<open>\<^verbatim>\<open>a >= b\<close> and \<^verbatim>\<open>a <= b\<close> on numbers: false as soon as one side is \<^verbatim>\<open>NaN\<close>.\<close>

definition num_ge :: "number \<Rightarrow> number \<Rightarrow> bool" where
  "num_ge a b = (case a of None \<Rightarrow> False | Some x \<Rightarrow> (case b of None \<Rightarrow> False | Some y \<Rightarrow> y \<le> x))"

definition num_le :: "number \<Rightarrow> number \<Rightarrow> bool" where
  "num_le a b = (case a of None \<Rightarrow> False | Some x \<Rightarrow> (case b of None \<Rightarrow> False | Some y \<Rightarrow> x \<le> y))"

text \<open>\<^verbatim>\<open>a % b\<close>: the remainder takes the sign of the dividend; \<^verbatim>\<open>NaN\<close> when \<open>b\<close> is zero.\<close>

definition num_rem :: "number \<Rightarrow> number \<Rightarrow> number" where
  "num_rem a b =
     (case a of None \<Rightarrow> None | Some x \<Rightarrow>
        (case b of None \<Rightarrow> None | Some y \<Rightarrow>
           if y = 0 then None else Some (sgn x * (\<bar>x\<bar> mod \<bar>y\<bar>))))"

text \<open>\<^verbatim>\<open>ToString\<close> of a number (integers print in plain decimal below \<open>10^21\<close>).\<close>

definition digit_char :: "nat \<Rightarrow> char" where
  "digit_char n = ''0123456789'' ! n"

fun show_nat :: "nat \<Rightarrow> string" where
  "show_nat n =
     (if n < 10 then [digit_char n]
      else show_nat (n div 10) @ [digit_char (n mod 10)])"

declare show_nat.simps [simp del]

definition Number_toString :: "number \<Rightarrow> string" where
  "Number_toString x =
     (case x of None \<Rightarrow> ''NaN''
      | Some i \<Rightarrow> if i < 0 then CHR ''-'' # show_nat (nat (- i)) else show_nat (nat i))"

subsection \<open>Day number, year, month and date of a time value\<close>

definition msPerDay :: int where
  "msPerDay = 86400000"

definition Day :: "int \<Rightarrow> int" where
  "Day t = t div msPerDay"

definition TimeWithinDay :: "int \<Rightarrow> int" where
  "TimeWithinDay t = t mod msPerDay"

definition DaysInYear :: "int \<Rightarrow> int" where
  "DaysInYear y =
     (if y mod 4 \<noteq> 0 then 365
      else if y mod 100 \<noteq> 0 then 366
      else if y mod 400 \<noteq> 0 then 365
      else 366)"

definition DayFromYear :: "int \<Rightarrow> int" where
  "DayFromYear y =
     365 * (y - 1970) + (y - 1969) div 4 - (y - 1901) div 100 + (y - 1601) div 400"

definition TimeFromYear :: "int \<Rightarrow> int" where
  "TimeFromYear y = msPerDay * DayFromYear y"

text \<open>
  ECMA-262 defines \<^verbatim>\<open>YearFromTime(t)\<close> as the largest year \<open>y\<close> with
  \<open>TimeFromYear y \<le> t\<close>. The executable form estimates the year from the mean length of
  a Gregorian year and corrects by one; \<open>YearFromDay_lower\<close>, \<open>YearFromDay_upper\<close>
  and \<open>YearFromDay_unique\<close> below show it is that largest year.
\<close>

definition YearFromDay :: "int \<Rightarrow> int" where
  "YearFromDay d =
     (let y0 = 1970 + (400 * d) div 146097
      in if d < DayFromYear y0 then y0 - 1
         else if DayFromYear (y0 + 1) \<le> d then y0 + 1
         else y0)"

definition YearFromTime :: "int \<Rightarrow> int" where
  "YearFromTime t = YearFromDay (Day t)"

definition InLeapYear :: "int \<Rightarrow> int" where
  "InLeapYear t = (if DaysInYear (YearFromTime t) = 366 then 1 else 0)"

definition DayWithinYear :: "int \<Rightarrow> int" where
  "DayWithinYear t = Day t - DayFromYear (YearFromTime t)"

definition MonthFromTime :: "int \<Rightarrow> int" where
  "MonthFromTime t =
     (let d = DayWithinYear t; l = InLeapYear t
      in if d < 31 then 0
         else if d < 59 + l then 1
         else if d < 90 + l then 2
         else if d < 120 + l then 3
         else if d < 151 + l then 4
         else if d < 181 + l then 5
         else if d < 212 + l then 6
         else if d < 243 + l then 7
         else if d < 273 + l then 8
         else if d < 304 + l then 9
         else if d < 334 + l then 10
         else 11)"

definition DateFromTime :: "int \<Rightarrow> int" where
  "DateFromTime t =
     (let d = DayWithinYear t; l = InLeapYear t; m = MonthFromTime t
      in if m = 0 then d + 1
         else if m = 1 then d - 30
         else if m = 2 then d - 58 - l
         else if m = 3 then d - 89 - l
         else if m = 4 then d - 119 - l
         else if m = 5 then d - 150 - l
         else if m = 6 then d - 180 - l
         else if m = 7 then d - 211 - l
         else if m = 8 then d - 242 - l
         else if m = 9 then d - 272 - l
         else if m = 10 then d - 303 - l
         else d - 333 - l)"

subsection \<open>Building time values\<close>

text \<open>
  \<^verbatim>\<open>MakeDay\<close> asks for "a time value \<open>t\<close> whose year is \<open>ym\<close>, whose month is \<open>mn\<close> and
  whose date is 1"; \<open>FirstOfMonth\<close> computes it (\<open>fields_of_date\<close> below shows it
  has these three fields). ECMA-262 lets an engine give up (\<^verbatim>\<open>NaN\<close>) when the year is out
  of its range; every such day number is beyond what \<open>TimeClip\<close> accepts on the paths
  of this module, where the date argument stays within a month's length of 1.
\<close>

definition DaysBeforeMonth :: "int \<Rightarrow> int \<Rightarrow> int" where
  "DaysBeforeMonth mn l =
     (if mn = 0 then 0
      else if mn = 1 then 31
      else if mn = 2 then 59 + l
      else if mn = 3 then 90 + l
      else if mn = 4 then 120 + l
      else if mn = 5 then 151 + l
      else if mn = 6 then 181 + l
      else if mn = 7 then 212 + l
      else if mn = 8 then 243 + l
      else if mn = 9 then 273 + l
      else if mn = 10 then 304 + l
      else 334 + l)"

text \<open>The length of month \<open>mn\<close> (0 to 11), from the same table.\<close>

definition DaysInMonth :: "int \<Rightarrow> int \<Rightarrow> int" where
  "DaysInMonth mn l =
     (if mn = 1 then 28 + l
      else if mn = 3 \<or> mn = 5 \<or> mn = 8 \<or> mn = 10 then 30
      else 31)"

definition FirstOfMonth :: "int \<Rightarrow> int \<Rightarrow> int" where
  "FirstOfMonth ym mn =
     msPerDay * (DayFromYear ym + DaysBeforeMonth mn (if DaysInYear ym = 366 then 1 else 0))"

definition MakeDay :: "number \<Rightarrow> number \<Rightarrow> number \<Rightarrow> number" where
  "MakeDay year month date =
     (case year of None \<Rightarrow> None | Some y \<Rightarrow>
        (case month of None \<Rightarrow> None | Some m \<Rightarrow>
           (case date of None \<Rightarrow> None | Some dt \<Rightarrow>
              (let ym = y + m div 12;
                   mn = m mod 12;
                   t = FirstOfMonth ym mn
               in Some (Day t + dt - 1)))))"

definition MakeTime :: "number \<Rightarrow> number \<Rightarrow> number \<Rightarrow> number \<Rightarrow> number" where
  "MakeTime hour minute sec ms =
     (case hour of None \<Rightarrow> None | Some h \<Rightarrow>
        (case minute of None \<Rightarrow> None | Some m \<Rightarrow>
           (case sec of None \<Rightarrow> None | Some s \<Rightarrow>
              (case ms of None \<Rightarrow> None | Some milli \<Rightarrow>
                 Some (h * 3600000 + m * 60000 + s * 1000 + milli)))))"

definition MakeDate :: "number \<Rightarrow> number \<Rightarrow> number" where
  "MakeDate day time =
     (case day of None \<Rightarrow> None | Some d \<Rightarrow>
        (case time of None \<Rightarrow> None | Some tm \<Rightarrow> Some (d * msPerDay + tm)))"

definition TimeClip :: "number \<Rightarrow> number" where
  "TimeClip time =
     (case time of None \<Rightarrow> None
      | Some t \<Rightarrow> if \<bar>t\<bar> > 8640000000000000 then None else Some t)"

text \<open>
  \<^verbatim>\<open>Date.UTC(year, month, date)\<close> with the time arguments absent (zero). A year from 0
  to 99 means 1900 to 1999.
\<close>

definition MakeFullYear :: "number \<Rightarrow> number" where
  "MakeFullYear year =
     (case year of None \<Rightarrow> None
      | Some y \<Rightarrow> if 0 \<le> y \<and> y \<le> 99 then Some (1900 + y) else Some y)"

definition Date_UTC :: "number \<Rightarrow> number \<Rightarrow> number \<Rightarrow> number" where
  "Date_UTC year month date =
     TimeClip (MakeDate (MakeDay (MakeFullYear year) month date)
                        (MakeTime (Some 0) (Some 0) (Some 0) (Some 0)))"

subsection \<open>Parsing date-time strings\<close>

text \<open>
  \<^verbatim>\<open>Date.parse\<close> on the ECMA-262 date-time string format. The module only ever parses
  \<^verbatim>\<open>dateString + "T00:00:00.000Z"\<close>, so the model reads the shape
  \<^verbatim>\<open><date>THH:mm:ss.sssZ\<close>, where \<^verbatim>\<open><date>\<close> is \<^verbatim>\<open>YYYY\<close>, \<^verbatim>\<open>YYYY-MM\<close> or
  \<^verbatim>\<open>YYYY-MM-DD\<close> and the year has four digits, or a sign and six digits. A string ending
  in that suffix fits the format in no other way. The fields are range-checked as the
  standard words it (month 01 to 12, day 01 to 31, as V8 does: the day is not checked
  against the month's length and rolls over). For a string outside the format an engine
  falls back to heuristics of its own (V8's legacy parser reads
  \<^verbatim>\<open>"2026-07-19 UT00:00:00.000Z"\<close> as a date); what the engine answers there is the
  parameter \<open>legacy\<close> of the model.
\<close>

type_synonym legacy_parser = "string \<Rightarrow> number"

definition is_digit :: "char \<Rightarrow> bool" where
  "is_digit c = (48 \<le> (of_char c :: nat) \<and> (of_char c :: nat) \<le> 57)"

definition digits_value :: "string \<Rightarrow> int" where
  "digits_value s = foldl (\<lambda>acc c. 10 * acc + (int (of_char c) - 48)) 0 s"

definition parse_digits :: "nat \<Rightarrow> string \<Rightarrow> int option" where
  "parse_digits n s =
     (if length s = n \<and> list_all is_digit s then Some (digits_value s) else None)"

definition parse_year :: "string \<Rightarrow> (int \<times> string) option" where
  "parse_year s =
     (case s of
        [] \<Rightarrow> None
      | c # cs \<Rightarrow>
          if c = CHR ''+'' then
            (case parse_digits 6 (take 6 cs) of None \<Rightarrow> None
             | Some y \<Rightarrow> Some (y, drop 6 cs))
          else if c = CHR ''-'' then
            (case parse_digits 6 (take 6 cs) of None \<Rightarrow> None
             | Some y \<Rightarrow> if y = 0 then None else Some (- y, drop 6 cs))
          else
            (case parse_digits 4 (take 4 s) of None \<Rightarrow> None
             | Some y \<Rightarrow> Some (y, drop 4 s)))"

definition parse_date_part :: "string \<Rightarrow> (int \<times> int \<times> int) option" where
  "parse_date_part s =
     (case parse_year s of None \<Rightarrow> None
      | Some (y, r1) \<Rightarrow>
          if r1 = [] then Some (y, 1, 1)
          else if hd r1 \<noteq> CHR ''-'' then None
          else
            (case parse_digits 2 (take 2 (tl r1)) of None \<Rightarrow> None
             | Some m \<Rightarrow>
                 if m < 1 \<or> 12 < m then None
                 else
                   (let r2 = drop 2 (tl r1)
                    in if r2 = [] then Some (y, m, 1)
                       else if hd r2 \<noteq> CHR ''-'' then None
                       else
                         (case parse_digits 2 (tl r2) of None \<Rightarrow> None
                          | Some d \<Rightarrow> if d < 1 \<or> 31 < d then None else Some (y, m, d)))))"

definition parse_time_part :: "string \<Rightarrow> (int \<times> int \<times> int \<times> int) option" where
  "parse_time_part s =
     (if length s = 14 \<and> s ! 0 = CHR ''T'' \<and> s ! 3 = CHR '':'' \<and> s ! 6 = CHR '':''
         \<and> s ! 9 = CHR ''.'' \<and> s ! 13 = CHR ''Z''
      then
        (case parse_digits 2 (take 2 (drop 1 s)) of None \<Rightarrow> None | Some h \<Rightarrow>
        (case parse_digits 2 (take 2 (drop 4 s)) of None \<Rightarrow> None | Some m \<Rightarrow>
        (case parse_digits 2 (take 2 (drop 7 s)) of None \<Rightarrow> None | Some sec \<Rightarrow>
        (case parse_digits 3 (take 3 (drop 10 s)) of None \<Rightarrow> None | Some ms \<Rightarrow>
           if 24 < h \<or> 59 < m \<or> 59 < sec then None
           else if h = 24 \<and> (m \<noteq> 0 \<or> sec \<noteq> 0 \<or> ms \<noteq> 0) then None
           else Some (h, m, sec, ms)))))
      else None)"

definition Date_parse :: "legacy_parser \<Rightarrow> string \<Rightarrow> number" where
  "Date_parse legacy s =
     (case parse_date_part (takeWhile (\<lambda>c. c \<noteq> CHR ''T'') s) of None \<Rightarrow> legacy s
      | Some (y, m, d) \<Rightarrow>
          (case parse_time_part (dropWhile (\<lambda>c. c \<noteq> CHR ''T'') s) of None \<Rightarrow> legacy s
           | Some (h, mi, sec, ms) \<Rightarrow>
               MakeDate (MakeDay (Some y) (Some (m - 1)) (Some d))
                        (MakeTime (Some h) (Some mi) (Some sec) (Some ms))))"

section \<open>Date objects\<close>

text \<open>
  A \<^verbatim>\<open>Date\<close> is a mutable object: the setters overwrite its time value in place, and two
  variables may hold the same object. The heap lists the time value of every
  \<^verbatim>\<open>Date\<close> allocated so far; a reference is a position in it, and \<^verbatim>\<open>new Date(...)\<close>
  appends.
\<close>

type_synonym ref = nat

type_synonym heap = "number list"

definition alloc :: "number \<Rightarrow> heap \<Rightarrow> ref \<times> heap" where
  "alloc tv h = (length h, h @ [tv])"

text \<open>\<^verbatim>\<open>new Date(date)\<close>, \<^verbatim>\<open>new Date(string)\<close> and \<^verbatim>\<open>new Date(number)\<close>.\<close>

definition new_Date_copy :: "ref \<Rightarrow> heap \<Rightarrow> ref \<times> heap" where
  "new_Date_copy date h = alloc (TimeClip (h ! date)) h"

definition new_Date_string :: "legacy_parser \<Rightarrow> string \<Rightarrow> heap \<Rightarrow> ref \<times> heap" where
  "new_Date_string legacy s h = alloc (TimeClip (Date_parse legacy s)) h"

definition new_Date_number :: "number \<Rightarrow> heap \<Rightarrow> ref \<times> heap" where
  "new_Date_number n h = alloc (TimeClip n) h"

text \<open>
  The host: its clock (the current time value) and its time zone (the offset of local
  time from UTC, in milliseconds, at a given UTC time). \<^verbatim>\<open>new Date()\<close> reads the clock.
\<close>

record host =
  currentTime :: int
  localTZA :: "int \<Rightarrow> int"

definition LocalTime :: "host \<Rightarrow> int \<Rightarrow> int" where
  "LocalTime env t = t + localTZA env t"

definition new_Date_now :: "host \<Rightarrow> heap \<Rightarrow> ref \<times> heap" where
  "new_Date_now env h = alloc (TimeClip (Some (currentTime env))) h"

subsection \<open>Getters\<close>

definition getUTCDate :: "ref \<Rightarrow> heap \<Rightarrow> number" where
  "getUTCDate d h = (case h ! d of None \<Rightarrow> None | Some t \<Rightarrow> Some (DateFromTime t))"

definition getUTCMonth :: "ref \<Rightarrow> heap \<Rightarrow> number" where
  "getUTCMonth d h = (case h ! d of None \<Rightarrow> None | Some t \<Rightarrow> Some (MonthFromTime t))"

definition getUTCFullYear :: "ref \<Rightarrow> heap \<Rightarrow> number" where
  "getUTCFullYear d h = (case h ! d of None \<Rightarrow> None | Some t \<Rightarrow> Some (YearFromTime t))"

definition getDate :: "host \<Rightarrow> ref \<Rightarrow> heap \<Rightarrow> number" where
  "getDate env d h =
     (case h ! d of None \<Rightarrow> None | Some t \<Rightarrow> Some (DateFromTime (LocalTime env t)))"

definition getMonth :: "host \<Rightarrow> ref \<Rightarrow> heap \<Rightarrow> number" where
  "getMonth env d h =
     (case h ! d of None \<Rightarrow> None | Some t \<Rightarrow> Some (MonthFromTime (LocalTime env t)))"

definition getFullYear :: "host \<Rightarrow> ref \<Rightarrow> heap \<Rightarrow> number" where
  "getFullYear env d h =
     (case h ! d of None \<Rightarrow> None | Some t \<Rightarrow> Some (YearFromTime (LocalTime env t)))"

text \<open>
  \<^verbatim>\<open>toLocaleDateString("en-GB", {month: "long", timeZone: "UTC"})\<close>: the full English
  name of the UTC month; \<^verbatim>\<open>"Invalid Date"\<close> for an invalid date.
\<close>

definition monthName :: "int \<Rightarrow> string" where
  "monthName m =
     (if m = 0 then ''January''
      else if m = 1 then ''February''
      else if m = 2 then ''March''
      else if m = 3 then ''April''
      else if m = 4 then ''May''
      else if m = 5 then ''June''
      else if m = 6 then ''July''
      else if m = 7 then ''August''
      else if m = 8 then ''September''
      else if m = 9 then ''October''
      else if m = 10 then ''November''
      else ''December'')"

definition toLocaleDateString_month_long_UTC :: "ref \<Rightarrow> heap \<Rightarrow> string" where
  "toLocaleDateString_month_long_UTC d h =
     (case h ! d of None \<Rightarrow> ''Invalid Date'' | Some t \<Rightarrow> monthName (MonthFromTime t))"

subsection \<open>Setters\<close>

text \<open>
  Each setter computes the new time value from the old one and stores it in the same
  object. \<^verbatim>\<open>setUTCDate\<close> and \<^verbatim>\<open>setUTCMonth\<close> leave an invalid date invalid;
  \<^verbatim>\<open>setUTCFullYear\<close> starts from time value 0 instead.
\<close>

definition setUTCDate_value :: "number \<Rightarrow> number \<Rightarrow> number" where
  "setUTCDate_value tv dt =
     (case tv of None \<Rightarrow> None
      | Some t \<Rightarrow>
          TimeClip (MakeDate (MakeDay (Some (YearFromTime t)) (Some (MonthFromTime t)) dt)
                             (Some (TimeWithinDay t))))"

definition setUTCMonth_value :: "number \<Rightarrow> number \<Rightarrow> number" where
  "setUTCMonth_value tv m =
     (case tv of None \<Rightarrow> None
      | Some t \<Rightarrow>
          TimeClip (MakeDate (MakeDay (Some (YearFromTime t)) m (Some (DateFromTime t)))
                             (Some (TimeWithinDay t))))"

definition setUTCFullYear_value :: "number \<Rightarrow> number \<Rightarrow> number" where
  "setUTCFullYear_value tv y =
     (let t = (case tv of None \<Rightarrow> 0 | Some t' \<Rightarrow> t')
      in TimeClip (MakeDate (MakeDay y (Some (MonthFromTime t)) (Some (DateFromTime t)))
                            (Some (TimeWithinDay t))))"

definition setUTCDate :: "ref \<Rightarrow> number \<Rightarrow> heap \<Rightarrow> heap" where
  "setUTCDate d dt h = h[d := setUTCDate_value (h ! d) dt]"

definition setUTCMonth :: "ref \<Rightarrow> number \<Rightarrow> heap \<Rightarrow> heap" where
  "setUTCMonth d m h = h[d := setUTCMonth_value (h ! d) m]"

definition setUTCFullYear :: "ref \<Rightarrow> number \<Rightarrow> heap \<Rightarrow> heap" where
  "setUTCFullYear d y h = h[d := setUTCFullYear_value (h ! d) y]"

section \<open>Values, exceptions and string concatenation\<close>

text \<open>
  \<^verbatim>\<open>calculateRevisionDates\<close> applies \<^verbatim>\<open>+\<close> to its argument, whatever value the caller
  passes. With a string on the right, \<^verbatim>\<open>+\<close> converts the left operand with
  \<^verbatim>\<open>ToString\<close>, which throws a \<^verbatim>\<open>TypeError\<close> for a symbol. The model has the
  primitive values this needs; numbers and objects (whose conversion may run code of
  their own) are left out.
\<close>

datatype js_error = TypeError

datatype js_value = JString string | JUndefined | JNull | JBoolean bool | JSymbol

definition ToString :: "js_value \<Rightarrow> js_error + string" where
  "ToString v =
     (case v of
        JString s \<Rightarrow> Inr s
      | JUndefined \<Rightarrow> Inr ''undefined''
      | JNull \<Rightarrow> Inr ''null''
      | JBoolean b \<Rightarrow> Inr (if b then ''true'' else ''false'')
      | JSymbol \<Rightarrow> Inl TypeError)"

text \<open>\<^verbatim>\<open>v + "..."\<close>, a string literal on the right.\<close>

definition plus_string :: "js_value \<Rightarrow> string \<Rightarrow> js_error + string" where
  "plus_string v s = (case ToString v of Inl e \<Rightarrow> Inl e | Inr l \<Rightarrow> Inr (l @ s))"

section \<open>The module \<^verbatim>\<open>dates.mjs\<close>\<close>

text \<open>
  Each function takes the heap and returns its result with the heap it leaves. The
  offsets \<open>days\<close>, \<open>months\<close> and \<open>years\<close> are integers. A call that throws returns
  the exception (\<open>Inl\<close>) instead.
\<close>

definition addDays :: "ref \<Rightarrow> int \<Rightarrow> heap \<Rightarrow> ref \<times> heap" where
  "addDays date days h =
     (let (result, h1) = new_Date_copy date h;
          h2 = setUTCDate result (num_add (getUTCDate result h1) (Some days)) h1
      in (result, h2))"

definition addMonths :: "ref \<Rightarrow> int \<Rightarrow> heap \<Rightarrow> ref \<times> heap" where
  "addMonths date months h =
     (let (result, h1) = new_Date_copy date h;
          h2 = setUTCMonth result (num_add (getUTCMonth result h1) (Some months)) h1
      in (result, h2))"

definition addYears :: "ref \<Rightarrow> int \<Rightarrow> heap \<Rightarrow> ref \<times> heap" where
  "addYears date years h =
     (let (result, h1) = new_Date_copy date h;
          h2 = setUTCFullYear result (num_add (getUTCFullYear result h1) (Some years)) h1
      in (result, h2))"

definition calculateRevisionDates ::
  "legacy_parser \<Rightarrow> js_value \<Rightarrow> heap \<Rightarrow> js_error + (ref list \<times> heap)" where
  "calculateRevisionDates legacy dateString h =
     (case plus_string dateString ''T00:00:00.000Z'' of
        Inl e \<Rightarrow> Inl e
      | Inr str \<Rightarrow>
          (let (startDate, h0) = new_Date_string legacy str h;
               (r1, h1) = addDays startDate 7 h0;
               (r2, h2) = addMonths startDate 1 h1;
               (r3, h3) = addMonths startDate 3 h2;
               (r4, h4) = addMonths startDate 6 h3;
               (r5, h5) = addYears startDate 1 h4
           in Inr ([r1, r2, r3, r4, r5], h5)))"

definition getOrdinalSuffix :: "number \<Rightarrow> string" where
  "getOrdinalSuffix num =
     (if num_ge num (Some 11) \<and> num_le num (Some 13) then ''th''
      else
        (let lastDigit = num_rem num (Some 10)
         in if lastDigit = Some 1 then ''st''
            else if lastDigit = Some 2 then ''nd''
            else if lastDigit = Some 3 then ''rd''
            else ''th''))"

definition formatDate :: "ref \<Rightarrow> heap \<Rightarrow> string \<times> heap" where
  "formatDate date h =
     (let day = getUTCDate date h;
          month = toLocaleDateString_month_long_UTC date h;
          year = getUTCFullYear date h;
          ordinal = getOrdinalSuffix day
      in (Number_toString day @ ordinal @ '' '' @ month @ '' '' @ Number_toString year, h))"

definition getTodayUTC :: "host \<Rightarrow> heap \<Rightarrow> ref \<times> heap" where
  "getTodayUTC env h =
     (let (now, h1) = new_Date_now env h
      in new_Date_number
           (Date_UTC (getFullYear env now h1) (getMonth env now h1) (getDate env now h1)) h1)"

definition isFutureDate :: "host \<Rightarrow> ref \<Rightarrow> heap \<Rightarrow> bool \<times> heap" where
  "isFutureDate env date h =
     (let (today, h1) = getTodayUTC env h
      in (num_ge (h1 ! date) (h1 ! today), h1))"

text \<open>\<^verbatim>\<open>revisionDates.map(formatDate)\<close>, as the tests call it.\<close>

fun map_formatDate :: "ref list \<Rightarrow> heap \<Rightarrow> string list \<times> heap" where
  "map_formatDate [] h = ([], h)"
| "map_formatDate (d # ds) h =
     (let (s, h1) = formatDate d h;
          (ss, h2) = map_formatDate ds h1
      in (s # ss, h2))"

section \<open>Vocabulary of the statements\<close>

text \<open>The time values a \<^verbatim>\<open>Date\<close> can hold: at most \<open>10^8\<close> days from the epoch.\<close>

definition valid_time :: "int \<Rightarrow> bool" where
  "valid_time t = (\<bar>t\<bar> \<le> 8640000000000000)"

text \<open>
  UTC midnight on day \<open>d\<close> of month \<open>m\<close> (0 to 11) of year \<open>y\<close>, as
  \<^verbatim>\<open>MakeDate(MakeDay(y, m, d), 0)\<close> computes it. \<open>UTC_midnight_fields\<close> below shows
  that its year, month and date are \<open>y\<close>, \<open>m\<close> and \<open>d\<close> when the month has a day \<open>d\<close>.
\<close>

definition UTC_midnight :: "int \<Rightarrow> int \<Rightarrow> int \<Rightarrow> int" where
  "UTC_midnight y m d = (Day (FirstOfMonth y m) + d - 1) * msPerDay"

definition leap :: "int \<Rightarrow> int" where
  "leap y = (if DaysInYear y = 366 then 1 else 0)"

text \<open>An engine with no heuristics beyond the standard format.\<close>

definition no_heuristics :: legacy_parser where
  "no_heuristics s = NaN"

text \<open>
  \<open>decimal s n\<close>: the string \<open>s\<close> is the decimal numeral of the integer \<open>n\<close>: a minus
  sign when \<open>n\<close> is negative, then digits whose value is the magnitude of \<open>n\<close>, with no
  leading zero. One string only has the property.
\<close>

definition decimal_nat :: "string \<Rightarrow> int \<Rightarrow> bool" where
  "decimal_nat s n =
     (s \<noteq> [] \<and> list_all is_digit s \<and> digits_value s = n \<and> (hd s = CHR ''0'' \<longrightarrow> s = ''0''))"

definition decimal :: "string \<Rightarrow> int \<Rightarrow> bool" where
  "decimal s n =
     (if n < 0 then s \<noteq> [] \<and> hd s = CHR ''-'' \<and> decimal_nat (tl s) (- n)
      else decimal_nat s n)"

text \<open>
  A time value is UTC midnight of the calendar day that the (local) time \<open>lt\<close> lies in.
\<close>

definition midnight_of_day :: "int \<Rightarrow> int \<Rightarrow> bool" where
  "midnight_of_day today lt =
     (TimeWithinDay today = 0 \<and> YearFromTime today = YearFromTime lt
      \<and> MonthFromTime today = MonthFromTime lt \<and> DateFromTime today = DateFromTime lt)"

text \<open>A host whose clock reads \<open>now\<close>, in a zone at a fixed offset from UTC.\<close>

definition host_at :: "int \<Rightarrow> int \<Rightarrow> host" where
  "host_at now offset = \<lparr>currentTime = now, localTZA = (\<lambda>t. offset)\<rparr>"

text \<open>The time value of the \<^verbatim>\<open>Date\<close> a call returned, read in the heap it left.\<close>

definition returned_value :: "ref \<times> heap \<Rightarrow> number" where
  "returned_value r = snd r ! fst r"

text \<open>
  The ordinal rule in the specification's words: 11 to 13 take "th"; otherwise the last
  digit decides.
\<close>

definition ordinal_rule :: "int \<Rightarrow> string" where
  "ordinal_rule day =
     (if 11 \<le> day \<and> day \<le> 13 then ''th''
      else if day mod 10 = 1 then ''st''
      else if day mod 10 = 2 then ''nd''
      else if day mod 10 = 3 then ''rd''
      else ''th'')"

section \<open>The calendar functions are the ones ECMA-262 specifies\<close>

subsection \<open>Years\<close>

lemma div_bounds:
  fixes x k :: int
  assumes "0 < k"
  shows "k * (x div k) \<le> x" and "x - (k - 1) \<le> k * (x div k)"
proof -
  have e: "k * (x div k) + x mod k = x" by (rule mult_div_mod_eq)
  have "0 \<le> x mod k" "x mod k < k" using assms by simp_all
  then show "k * (x div k) \<le> x" and "x - (k - 1) \<le> k * (x div k)"
    using e by linarith+
qed

lemma div_step:
  fixes x k :: int
  assumes "1 < k"
  shows "(x + 1) div k = x div k + (if (x + 1) mod k = 0 then 1 else 0)"
proof -
  define q where "q = x div k"
  define r where "r = x mod k"
  have x: "x = k * q + r" and r: "0 \<le> r" "r < k"
    using assms by (simp_all add: q_def r_def)
  show ?thesis
  proof (cases "r + 1 = k")
    case True
    then have "x + 1 = k * (q + 1)" using x by (simp add: algebra_simps)
    then show ?thesis using assms by (simp add: q_def)
  next
    case False
    then have lt: "r + 1 < k" using r by simp
    have eq: "x + 1 = (r + 1) + k * q" using x by simp
    have d: "(x + 1) div k = q" unfolding eq using lt r assms by (simp add: div_pos_pos_trivial)
    have m: "(x + 1) mod k = r + 1" unfolding eq using lt r assms by (simp add: mod_pos_pos_trivial)
    show ?thesis using d m r by (simp add: q_def)
  qed
qed

lemma mod_shift:
  fixes y k c :: int
  shows "(y - k * c) mod k = y mod k"
proof -
  have "(y - k * c + k * c) mod k = (y - k * c) mod k" by (rule mod_mult_self2)
  then show ?thesis by simp
qed

lemma leap_mods:
  fixes y :: int
  shows "((y - 1969) + 1) mod 4 = 0 \<longleftrightarrow> y mod 4 = 0"
    and "((y - 1901) + 1) mod 100 = 0 \<longleftrightarrow> y mod 100 = 0"
    and "((y - 1601) + 1) mod 400 = 0 \<longleftrightarrow> y mod 400 = 0"
  using mod_shift[of y 4 492] mod_shift[of y 100 19] mod_shift[of y 400 4] by simp_all

lemma mod_100_4:
  fixes y :: int
  assumes "y mod 100 = 0"
  shows "y mod 4 = 0"
proof -
  have "(4::int) dvd 100" by simp
  moreover have "100 dvd y" using assms by (simp add: dvd_eq_mod_eq_0)
  ultimately have "4 dvd y" by (rule dvd_trans)
  then show ?thesis by (simp add: dvd_eq_mod_eq_0)
qed

lemma mod_400_100:
  fixes y :: int
  assumes "y mod 400 = 0"
  shows "y mod 100 = 0"
proof -
  have "(100::int) dvd 400" by simp
  moreover have "400 dvd y" using assms by (simp add: dvd_eq_mod_eq_0)
  ultimately have "100 dvd y" by (rule dvd_trans)
  then show ?thesis by (simp add: dvd_eq_mod_eq_0)
qed

lemma DayFromYear_Suc: "DayFromYear (y + 1) = DayFromYear y + DaysInYear y"
proof -
  have a: "(y + 1 - 1969) div 4 = (y - 1969) div 4 + (if y mod 4 = 0 then 1 else 0)"
    using div_step[of 4 "y - 1969"] leap_mods(1)[of y] by (simp add: algebra_simps)
  have b: "(y + 1 - 1901) div 100 = (y - 1901) div 100 + (if y mod 100 = 0 then 1 else 0)"
    using div_step[of 100 "y - 1901"] leap_mods(2)[of y] by (simp add: algebra_simps)
  have c: "(y + 1 - 1601) div 400 = (y - 1601) div 400 + (if y mod 400 = 0 then 1 else 0)"
    using div_step[of 400 "y - 1601"] leap_mods(3)[of y] by (simp add: algebra_simps)
  show ?thesis
    unfolding DayFromYear_def DaysInYear_def a b c
    using mod_100_4[of y] mod_400_100[of y] by auto
qed

lemma DayFromYear_upper: "400 * DayFromYear y \<le> 146097 * (y - 1970) + 589"
proof -
  define A where "A = (y - 1969) div 4"
  define B where "B = (y - 1901) div 100"
  define C where "C = (y - 1601) div 400"
  have "4 * A \<le> y - 1969" "y - 1901 - 99 \<le> 100 * B" "400 * C \<le> y - 1601"
    unfolding A_def B_def C_def
    using div_bounds[of 4 "y - 1969"] div_bounds[of 100 "y - 1901"] div_bounds[of 400 "y - 1601"]
    by simp_all
  then have "400 * A \<le> 100 * (y - 1969)" "4 * (y - 2000) \<le> 400 * B" "400 * C \<le> y - 1601"
    by simp_all
  moreover have "DayFromYear y = 365 * (y - 1970) + A - B + C"
    by (simp add: DayFromYear_def A_def B_def C_def)
  ultimately show ?thesis by simp
qed

lemma DayFromYear_lower: "146097 * (y - 1970) - 506 \<le> 400 * DayFromYear y"
proof -
  define A where "A = (y - 1969) div 4"
  define B where "B = (y - 1901) div 100"
  define C where "C = (y - 1601) div 400"
  have "y - 1969 - 3 \<le> 4 * A" "100 * B \<le> y - 1901" "y - 1601 - 399 \<le> 400 * C"
    unfolding A_def B_def C_def
    using div_bounds[of 4 "y - 1969"] div_bounds[of 100 "y - 1901"] div_bounds[of 400 "y - 1601"]
    by simp_all
  then have "100 * (y - 1972) \<le> 400 * A" "400 * B \<le> 4 * (y - 1901)" "y - 2000 \<le> 400 * C"
    by simp_all
  moreover have "DayFromYear y = 365 * (y - 1970) + A - B + C"
    by (simp add: DayFromYear_def A_def B_def C_def)
  ultimately show ?thesis by simp
qed

lemma DaysInYear_cases: "DaysInYear y = 365 \<or> DaysInYear y = 366"
  by (simp add: DaysInYear_def)

lemma DayFromYear_less_Suc: "DayFromYear y < DayFromYear (y + 1)"
  using DaysInYear_cases[of y] by (auto simp: DayFromYear_Suc)

lemma DayFromYear_mono:
  assumes "y \<le> z"
  shows "DayFromYear y \<le> DayFromYear z"
  using assms
proof (induction z rule: int_ge_induct)
  case base
  show ?case by simp
next
  case (step i)
  then show ?case using DayFromYear_less_Suc[of i] by simp
qed

lemma YearFromDay_lower: "DayFromYear (YearFromDay d) \<le> d"
proof -
  define k where "k = (400 * d) div 146097"
  have k: "146097 * k \<le> 400 * d" using div_bounds(1)[of 146097 "400 * d"] by (simp add: k_def)
  have up: "400 * DayFromYear (1970 + k - 1) \<le> 146097 * (k - 1) + 589"
    using DayFromYear_upper[of "1970 + k - 1"] by simp
  have "d < DayFromYear (1970 + k) \<Longrightarrow> DayFromYear (1970 + k - 1) \<le> d"
    using k up by simp
  then show ?thesis
    unfolding YearFromDay_def Let_def k_def[symmetric] by auto
qed

lemma YearFromDay_upper: "d < DayFromYear (YearFromDay d + 1)"
proof -
  define k where "k = (400 * d) div 146097"
  have k: "400 * d - 146096 \<le> 146097 * k"
    using div_bounds(2)[of 146097 "400 * d"] by (simp add: k_def)
  have lo: "146097 * (k + 2) - 506 \<le> 400 * DayFromYear (1970 + k + 1 + 1)"
    using DayFromYear_lower[of "1970 + k + 1 + 1"] by simp
  have "d < DayFromYear (1970 + k + 1 + 1)"
    using k lo by simp
  then show ?thesis
    unfolding YearFromDay_def Let_def k_def[symmetric] by auto
qed

lemma YearFromDay_unique:
  assumes "DayFromYear y \<le> d" and "d < DayFromYear (y + 1)"
  shows "YearFromDay d = y"
proof (rule ccontr)
  assume ne: "YearFromDay d \<noteq> y"
  define z where "z = YearFromDay d"
  have lo: "DayFromYear z \<le> d" and hi: "d < DayFromYear (z + 1)"
    unfolding z_def by (rule YearFromDay_lower, rule YearFromDay_upper)
  show False
  proof (cases "z < y")
    case True
    then have "DayFromYear (z + 1) \<le> DayFromYear y" by (intro DayFromYear_mono) simp
    with hi assms(1) show False by simp
  next
    case False
    with ne have "y + 1 \<le> z" by (simp add: z_def)
    then have "DayFromYear (y + 1) \<le> DayFromYear z" by (rule DayFromYear_mono)
    with lo assms(2) show False by simp
  qed
qed

subsection \<open>Months and dates\<close>

lemma TimeWithinDay_range: "0 \<le> TimeWithinDay t" "TimeWithinDay t < msPerDay"
  by (simp_all add: TimeWithinDay_def msPerDay_def)

lemma Day_TimeWithinDay: "Day t * msPerDay + TimeWithinDay t = t"
  by (simp add: Day_def TimeWithinDay_def)

lemma Day_compose:
  assumes "0 \<le> tm" and "tm < msPerDay"
  shows "Day (d * msPerDay + tm) = d"
proof -
  have "msPerDay \<noteq> 0" by (simp add: msPerDay_def)
  then have "(d * msPerDay + tm) div msPerDay = d + tm div msPerDay" by simp
  then show ?thesis using assms by (simp add: Day_def div_pos_pos_trivial)
qed

lemma TimeWithinDay_compose:
  assumes "0 \<le> tm" and "tm < msPerDay"
  shows "TimeWithinDay (d * msPerDay + tm) = tm"
  using assms by (simp add: TimeWithinDay_def mod_pos_pos_trivial)

lemma InLeapYear_cases: "InLeapYear t = 0 \<or> InLeapYear t = 1"
  by (simp add: InLeapYear_def)

lemma DaysInYear_InLeapYear: "DaysInYear (YearFromTime t) = 365 + InLeapYear t"
  using DaysInYear_cases[of "YearFromTime t"] by (auto simp: InLeapYear_def)

lemma DayWithinYear_lower: "0 \<le> DayWithinYear t"
  using YearFromDay_lower[of "Day t"] by (simp add: DayWithinYear_def YearFromTime_def)

lemma DayWithinYear_upper: "DayWithinYear t < 365 + InLeapYear t"
  using YearFromDay_upper[of "Day t"] DayFromYear_Suc[of "YearFromTime t"]
    DaysInYear_InLeapYear[of t]
  by (simp add: DayWithinYear_def YearFromTime_def)

lemma MonthFromTime_range: "0 \<le> MonthFromTime t" "MonthFromTime t \<le> 11"
  by (simp_all add: MonthFromTime_def Let_def)

text \<open>The two tables of ECMA-262, over any day within the year \<open>d\<close> and leap flag \<open>l\<close>.\<close>

lemma month_tables:
  fixes d l m :: int
  assumes "0 \<le> d" and "d < 365 + l" and "l = 0 \<or> l = 1"
    and "m = (if d < 31 then 0
         else if d < 59 + l then 1
         else if d < 90 + l then 2
         else if d < 120 + l then 3
         else if d < 151 + l then 4
         else if d < 181 + l then 5
         else if d < 212 + l then 6
         else if d < 243 + l then 7
         else if d < 273 + l then 8
         else if d < 304 + l then 9
         else if d < 334 + l then 10
         else 11)"
    and "dt = (if m = 0 then d + 1
         else if m = 1 then d - 30
         else if m = 2 then d - 58 - l
         else if m = 3 then d - 89 - l
         else if m = 4 then d - 119 - l
         else if m = 5 then d - 150 - l
         else if m = 6 then d - 180 - l
         else if m = 7 then d - 211 - l
         else if m = 8 then d - 242 - l
         else if m = 9 then d - 272 - l
         else if m = 10 then d - 303 - l
         else d - 333 - l)"
  shows "DaysBeforeMonth m l + dt - 1 = d" and "1 \<le> dt" and "dt \<le> DaysInMonth m l"
proof -
  have l: "0 \<le> l" "l \<le> 1" using assms(3) by auto
  consider (jan) "d < 31"
    | (feb) "31 \<le> d" "d < 59 + l"
    | (mar) "59 + l \<le> d" "d < 90 + l"
    | (apr) "90 + l \<le> d" "d < 120 + l"
    | (may) "120 + l \<le> d" "d < 151 + l"
    | (jun) "151 + l \<le> d" "d < 181 + l"
    | (jul) "181 + l \<le> d" "d < 212 + l"
    | (aug) "212 + l \<le> d" "d < 243 + l"
    | (sep) "243 + l \<le> d" "d < 273 + l"
    | (oct) "273 + l \<le> d" "d < 304 + l"
    | (nov) "304 + l \<le> d" "d < 334 + l"
    | (dec) "334 + l \<le> d"
    by linarith
  then have "DaysBeforeMonth m l + dt - 1 = d \<and> 1 \<le> dt \<and> dt \<le> DaysInMonth m l"
  proof cases
    case jan
    then have "m = 0" using assms(4) l by simp
    then show ?thesis using jan assms(1,2,5) l by (simp add: DaysBeforeMonth_def DaysInMonth_def)
  next
    case feb
    then have "m = 1" using assms(4) l by simp
    then show ?thesis using feb assms(1,2,5) l by (simp add: DaysBeforeMonth_def DaysInMonth_def)
  next
    case mar
    then have "m = 2" using assms(4) l by simp
    then show ?thesis using mar assms(1,2,5) l by (simp add: DaysBeforeMonth_def DaysInMonth_def)
  next
    case apr
    then have "m = 3" using assms(4) l by simp
    then show ?thesis using apr assms(1,2,5) l by (simp add: DaysBeforeMonth_def DaysInMonth_def)
  next
    case may
    then have "m = 4" using assms(4) l by simp
    then show ?thesis using may assms(1,2,5) l by (simp add: DaysBeforeMonth_def DaysInMonth_def)
  next
    case jun
    then have "m = 5" using assms(4) l by simp
    then show ?thesis using jun assms(1,2,5) l by (simp add: DaysBeforeMonth_def DaysInMonth_def)
  next
    case jul
    then have "m = 6" using assms(4) l by simp
    then show ?thesis using jul assms(1,2,5) l by (simp add: DaysBeforeMonth_def DaysInMonth_def)
  next
    case aug
    then have "m = 7" using assms(4) l by simp
    then show ?thesis using aug assms(1,2,5) l by (simp add: DaysBeforeMonth_def DaysInMonth_def)
  next
    case sep
    then have "m = 8" using assms(4) l by simp
    then show ?thesis using sep assms(1,2,5) l by (simp add: DaysBeforeMonth_def DaysInMonth_def)
  next
    case oct
    then have "m = 9" using assms(4) l by simp
    then show ?thesis using oct assms(1,2,5) l by (simp add: DaysBeforeMonth_def DaysInMonth_def)
  next
    case nov
    then have "m = 10" using assms(4) l by simp
    then show ?thesis using nov assms(1,2,5) l by (simp add: DaysBeforeMonth_def DaysInMonth_def)
  next
    case dec
    then have "m = 11" using assms(4) l by simp
    then show ?thesis using dec assms(1,2,5) l by (simp add: DaysBeforeMonth_def DaysInMonth_def)
  qed
  then show "DaysBeforeMonth m l + dt - 1 = d" and "1 \<le> dt" and "dt \<le> DaysInMonth m l"
    by simp_all
qed

lemma month_tables_at:
  shows DayWithinYear_decompose:
      "DaysBeforeMonth (MonthFromTime t) (InLeapYear t) + DateFromTime t - 1 = DayWithinYear t"
    and DateFromTime_lower: "1 \<le> DateFromTime t"
    and DateFromTime_upper_month:
      "DateFromTime t \<le> DaysInMonth (MonthFromTime t) (InLeapYear t)"
proof -
  note tab = month_tables[where d = "DayWithinYear t" and l = "InLeapYear t"
      and m = "MonthFromTime t" and dt = "DateFromTime t",
      OF DayWithinYear_lower DayWithinYear_upper InLeapYear_cases]
  have m: "MonthFromTime t = (let d = DayWithinYear t; l = InLeapYear t
      in if d < 31 then 0
         else if d < 59 + l then 1
         else if d < 90 + l then 2
         else if d < 120 + l then 3
         else if d < 151 + l then 4
         else if d < 181 + l then 5
         else if d < 212 + l then 6
         else if d < 243 + l then 7
         else if d < 273 + l then 8
         else if d < 304 + l then 9
         else if d < 334 + l then 10
         else 11)"
    by (rule MonthFromTime_def)
  have dt: "DateFromTime t = (let d = DayWithinYear t; l = InLeapYear t; m = MonthFromTime t
      in if m = 0 then d + 1
         else if m = 1 then d - 30
         else if m = 2 then d - 58 - l
         else if m = 3 then d - 89 - l
         else if m = 4 then d - 119 - l
         else if m = 5 then d - 150 - l
         else if m = 6 then d - 180 - l
         else if m = 7 then d - 211 - l
         else if m = 8 then d - 242 - l
         else if m = 9 then d - 272 - l
         else if m = 10 then d - 303 - l
         else d - 333 - l)"
    by (rule DateFromTime_def)
  show "DaysBeforeMonth (MonthFromTime t) (InLeapYear t) + DateFromTime t - 1 = DayWithinYear t"
    by (rule tab(1)[OF m[unfolded Let_def] dt[unfolded Let_def]])
  show "1 \<le> DateFromTime t"
    by (rule tab(2)[OF m[unfolded Let_def] dt[unfolded Let_def]])
  show "DateFromTime t \<le> DaysInMonth (MonthFromTime t) (InLeapYear t)"
    by (rule tab(3)[OF m[unfolded Let_def] dt[unfolded Let_def]])
qed

lemma DaysInMonth_le_31: "DaysInMonth m l \<le> 31" if "l = 0 \<or> l = 1"
  using that by (auto simp: DaysInMonth_def)

lemma DateFromTime_upper: "DateFromTime t \<le> 31"
  using DateFromTime_upper_month[of t] DaysInMonth_le_31[OF InLeapYear_cases, of "MonthFromTime t" t]
  by simp

text \<open>The first round trip: a time value is rebuilt from its own fields.\<close>

lemma Day_FirstOfMonth:
  "Day (FirstOfMonth ym mn) = DayFromYear ym + DaysBeforeMonth mn (if DaysInYear ym = 366 then 1 else 0)"
  using Day_compose[of 0 "DayFromYear ym + DaysBeforeMonth mn (if DaysInYear ym = 366 then 1 else 0)"]
  by (simp add: FirstOfMonth_def msPerDay_def mult.commute)

lemma Day_from_fields:
  "Day (FirstOfMonth (YearFromTime t) (MonthFromTime t)) + DateFromTime t - 1 = Day t"
  using DayWithinYear_decompose[of t]
  by (simp add: Day_FirstOfMonth InLeapYear_def DayWithinYear_def)

lemma month_div_mod:
  assumes "0 \<le> m" and "m \<le> (11::int)"
  shows "m div 12 = 0" and "m mod 12 = m"
  using assms by (simp_all add: div_pos_pos_trivial mod_pos_pos_trivial)

lemma MakeDay_from_fields:
  "MakeDay (Some (YearFromTime t)) (Some (MonthFromTime t)) (Some (DateFromTime t + n))
     = Some (Day t + n)"
  using Day_from_fields[of t] month_div_mod[OF MonthFromTime_range, of t]
  by (simp add: MakeDay_def Let_def)

lemma month_cases:
  fixes mn :: int
  assumes "0 \<le> mn" and "mn \<le> 11"
  obtains (jan) "mn = 0" | (feb) "mn = 1" | (mar) "mn = 2" | (apr) "mn = 3" | (may) "mn = 4" | (jun) "mn = 5" | (jul) "mn = 6" | (aug) "mn = 7" | (sep) "mn = 8" | (oct) "mn = 9" | (nov) "mn = 10" | (dec) "mn = 11"
proof -
  have "mn = 0 \<or> mn = 1 \<or> mn = 2 \<or> mn = 3 \<or> mn = 4 \<or> mn = 5 \<or> mn = 6
      \<or> mn = 7 \<or> mn = 8 \<or> mn = 9 \<or> mn = 10 \<or> mn = 11"
    using assms by presburger
  then show thesis
    using jan feb mar apr may jun jul aug sep oct nov dec by blast
qed

lemma month_tables_inverse:
  fixes mn dt l d :: int
  assumes "0 \<le> mn" and "mn \<le> 11" and "1 \<le> dt" and "dt \<le> DaysInMonth mn l"
    and "l = 0 \<or> l = 1" and "d = DaysBeforeMonth mn l + dt - 1"
  shows "0 \<le> d" and "d < 365 + l"
    and "(if d < 31 then 0
         else if d < 59 + l then 1
         else if d < 90 + l then 2
         else if d < 120 + l then 3
         else if d < 151 + l then 4
         else if d < 181 + l then 5
         else if d < 212 + l then 6
         else if d < 243 + l then 7
         else if d < 273 + l then 8
         else if d < 304 + l then 9
         else if d < 334 + l then 10
         else 11) = mn"
    and "(if mn = 0 then d + 1
         else if mn = 1 then d - 30
         else if mn = 2 then d - 58 - l
         else if mn = 3 then d - 89 - l
         else if mn = 4 then d - 119 - l
         else if mn = 5 then d - 150 - l
         else if mn = 6 then d - 180 - l
         else if mn = 7 then d - 211 - l
         else if mn = 8 then d - 242 - l
         else if mn = 9 then d - 272 - l
         else if mn = 10 then d - 303 - l
         else d - 333 - l) = dt"
proof -
  have l: "0 \<le> l" "l \<le> 1" using assms(5) by auto
  have "0 \<le> d \<and> d < 365 + l
    \<and> (if d < 31 then 0
         else if d < 59 + l then 1
         else if d < 90 + l then 2
         else if d < 120 + l then 3
         else if d < 151 + l then 4
         else if d < 181 + l then 5
         else if d < 212 + l then 6
         else if d < 243 + l then 7
         else if d < 273 + l then 8
         else if d < 304 + l then 9
         else if d < 334 + l then 10
         else 11) = mn
    \<and> (if mn = 0 then d + 1
         else if mn = 1 then d - 30
         else if mn = 2 then d - 58 - l
         else if mn = 3 then d - 89 - l
         else if mn = 4 then d - 119 - l
         else if mn = 5 then d - 150 - l
         else if mn = 6 then d - 180 - l
         else if mn = 7 then d - 211 - l
         else if mn = 8 then d - 242 - l
         else if mn = 9 then d - 272 - l
         else if mn = 10 then d - 303 - l
         else d - 333 - l) = dt"
    using assms(1,2)
  proof (cases rule: month_cases)
    case jan
    then show ?thesis using assms(3,4,6) l by (simp add: DaysBeforeMonth_def DaysInMonth_def)
  next
    case feb
    then show ?thesis using assms(3,4,6) l by (simp add: DaysBeforeMonth_def DaysInMonth_def)
  next
    case mar
    then show ?thesis using assms(3,4,6) l by (simp add: DaysBeforeMonth_def DaysInMonth_def)
  next
    case apr
    then show ?thesis using assms(3,4,6) l by (simp add: DaysBeforeMonth_def DaysInMonth_def)
  next
    case may
    then show ?thesis using assms(3,4,6) l by (simp add: DaysBeforeMonth_def DaysInMonth_def)
  next
    case jun
    then show ?thesis using assms(3,4,6) l by (simp add: DaysBeforeMonth_def DaysInMonth_def)
  next
    case jul
    then show ?thesis using assms(3,4,6) l by (simp add: DaysBeforeMonth_def DaysInMonth_def)
  next
    case aug
    then show ?thesis using assms(3,4,6) l by (simp add: DaysBeforeMonth_def DaysInMonth_def)
  next
    case sep
    then show ?thesis using assms(3,4,6) l by (simp add: DaysBeforeMonth_def DaysInMonth_def)
  next
    case oct
    then show ?thesis using assms(3,4,6) l by (simp add: DaysBeforeMonth_def DaysInMonth_def)
  next
    case nov
    then show ?thesis using assms(3,4,6) l by (simp add: DaysBeforeMonth_def DaysInMonth_def)
  next
    case dec
    then show ?thesis using assms(3,4,6) l by (simp add: DaysBeforeMonth_def DaysInMonth_def)
  qed
  then show "0 \<le> d" and "d < 365 + l"
    and "(if d < 31 then 0
         else if d < 59 + l then 1
         else if d < 90 + l then 2
         else if d < 120 + l then 3
         else if d < 151 + l then 4
         else if d < 181 + l then 5
         else if d < 212 + l then 6
         else if d < 243 + l then 7
         else if d < 273 + l then 8
         else if d < 304 + l then 9
         else if d < 334 + l then 10
         else 11) = mn"
    and "(if mn = 0 then d + 1
         else if mn = 1 then d - 30
         else if mn = 2 then d - 58 - l
         else if mn = 3 then d - 89 - l
         else if mn = 4 then d - 119 - l
         else if mn = 5 then d - 150 - l
         else if mn = 6 then d - 180 - l
         else if mn = 7 then d - 211 - l
         else if mn = 8 then d - 242 - l
         else if mn = 9 then d - 272 - l
         else if mn = 10 then d - 303 - l
         else d - 333 - l) = dt"
    by simp_all
qed

text \<open>
  The second round trip: the fields of a time value built from a year, a month, a date
  within the month's length and a time within the day are these.
\<close>

lemma DaysInYear_leap: "DaysInYear y = 365 + (if DaysInYear y = 366 then 1 else 0)"
  using DaysInYear_cases[of y] by auto

lemma fields_of_date:
  fixes ym mn dt tm :: int
  defines "l \<equiv> (if DaysInYear ym = 366 then 1 else 0)"
  defines "t \<equiv> (Day (FirstOfMonth ym mn) + dt - 1) * msPerDay + tm"
  assumes mn: "0 \<le> mn" "mn \<le> 11" and dt: "1 \<le> dt" "dt \<le> DaysInMonth mn l"
    and tm: "0 \<le> tm" "tm < msPerDay"
  shows "YearFromTime t = ym" and "MonthFromTime t = mn" and "DateFromTime t = dt"
    and "TimeWithinDay t = tm"
proof -
  define d where "d = DaysBeforeMonth mn l + dt - 1"
  have l: "l = 0 \<or> l = 1" by (simp add: l_def)
  note inv = month_tables_inverse[OF mn dt l d_def]
  have day: "Day t = DayFromYear ym + d"
    unfolding t_def using Day_compose[OF tm] by (simp add: Day_FirstOfMonth d_def l_def)
  have "DayFromYear (ym + 1) = DayFromYear ym + 365 + l"
    using DayFromYear_Suc[of ym] DaysInYear_leap[of ym] by (simp add: l_def)
  then have "DayFromYear ym \<le> Day t" and "Day t < DayFromYear (ym + 1)"
    using inv(1,2) day by simp_all
  then show y: "YearFromTime t = ym"
    unfolding YearFromTime_def by (rule YearFromDay_unique)
  have dwy: "DayWithinYear t = d" by (simp add: DayWithinYear_def y day)
  have leap: "InLeapYear t = l" by (simp add: InLeapYear_def y l_def)
  show m: "MonthFromTime t = mn"
    unfolding MonthFromTime_def Let_def dwy leap by (rule inv(3))
  show "DateFromTime t = dt"
    unfolding DateFromTime_def Let_def dwy leap m by (rule inv(4))
  show "TimeWithinDay t = tm"
    unfolding t_def by (rule TimeWithinDay_compose[OF tm])
qed

text \<open>A date beyond the month's length falls into the following month; no clamping.\<close>

lemma DaysBeforeMonth_Suc:
  assumes "0 \<le> mn" and "mn \<le> 10"
  shows "DaysBeforeMonth (mn + 1) l = DaysBeforeMonth mn l + DaysInMonth mn l"
proof -
  from assms have "0 \<le> mn" "mn \<le> 11" by simp_all
  then show ?thesis
    by (cases rule: month_cases) (use assms in \<open>simp_all add: DaysBeforeMonth_def DaysInMonth_def\<close>)
qed

lemma DaysInMonth_ge_28: "28 \<le> DaysInMonth m l" if "l = 0 \<or> l = 1"
  using that by (auto simp: DaysInMonth_def)

lemma fields_of_date_overflow:
  fixes ym mn dt tm :: int
  defines "l \<equiv> (if DaysInYear ym = 366 then 1 else 0)"
  defines "t \<equiv> (Day (FirstOfMonth ym mn) + dt - 1) * msPerDay + tm"
  assumes mn: "0 \<le> mn" "mn \<le> 11" and dt: "DaysInMonth mn l < dt" "dt \<le> 31"
    and tm: "0 \<le> tm" "tm < msPerDay"
  shows "YearFromTime t = ym" and "MonthFromTime t = mn + 1"
    and "DateFromTime t = dt - DaysInMonth mn l" and "TimeWithinDay t = tm"
proof -
  have l: "l = 0 \<or> l = 1" by (simp add: l_def)
  have "mn \<noteq> 11" using dt by (auto simp: DaysInMonth_def)
  with mn have mn': "0 \<le> mn + 1" "mn + 1 \<le> 11" and le: "mn \<le> 10" by simp_all
  have dt': "1 \<le> dt - DaysInMonth mn l" "dt - DaysInMonth mn l \<le> DaysInMonth (mn + 1) l"
    using dt DaysInMonth_ge_28[OF l, of mn] DaysInMonth_ge_28[OF l, of "mn + 1"] by simp_all
  have "Day (FirstOfMonth ym (mn + 1)) = Day (FirstOfMonth ym mn) + DaysInMonth mn l"
    using DaysBeforeMonth_Suc[OF mn(1) le, of l] by (simp add: Day_FirstOfMonth l_def)
  then have t: "t = (Day (FirstOfMonth ym (mn + 1)) + (dt - DaysInMonth mn l) - 1) * msPerDay + tm"
    by (simp add: t_def)
  note f = fields_of_date[OF mn' dt'[unfolded l_def] tm, folded l_def]
  show "YearFromTime t = ym" and "MonthFromTime t = mn + 1"
    and "DateFromTime t = dt - DaysInMonth mn l" and "TimeWithinDay t = tm"
    unfolding t by (rule f)+
qed

section \<open>What the module's functions do to the heap\<close>

text \<open>
  Each offset function allocates one object and writes only to it. The time value it
  leaves there depends on the argument's time value alone, so it is the one the same call
  leaves on the heap that holds just the argument.
\<close>

lemma TimeClip_idem: "TimeClip (TimeClip v) = TimeClip v"
  by (simp add: TimeClip_def split: option.splits)

lemma TimeClip_valid: "valid_time t \<Longrightarrow> TimeClip (Some t) = Some t"
  by (simp add: TimeClip_def valid_time_def)

lemma TimeClip_Some: "TimeClip v = Some t \<Longrightarrow> v = Some t \<and> valid_time t"
  by (auto simp: TimeClip_def valid_time_def split: option.splits if_splits)

lemma addDays_heap:
  "addDays date n h = (length h, h @ [returned_value (addDays 0 n [h ! date])])"
  by (simp add: addDays_def new_Date_copy_def alloc_def setUTCDate_def getUTCDate_def
      returned_value_def TimeClip_idem)

lemma addMonths_heap:
  "addMonths date n h = (length h, h @ [returned_value (addMonths 0 n [h ! date])])"
  by (simp add: addMonths_def new_Date_copy_def alloc_def setUTCMonth_def getUTCMonth_def
      returned_value_def TimeClip_idem)

lemma addYears_heap:
  "addYears date n h = (length h, h @ [returned_value (addYears 0 n [h ! date])])"
  by (simp add: addYears_def new_Date_copy_def alloc_def setUTCFullYear_def getUTCFullYear_def
      returned_value_def TimeClip_idem)

lemma addDays_NaN: "returned_value (addDays 0 n [None]) = None"
  by (simp add: addDays_def new_Date_copy_def alloc_def setUTCDate_def getUTCDate_def
      returned_value_def TimeClip_def setUTCDate_value_def)

lemma addMonths_NaN: "returned_value (addMonths 0 n [None]) = None"
  by (simp add: addMonths_def new_Date_copy_def alloc_def setUTCMonth_def getUTCMonth_def
      returned_value_def TimeClip_def setUTCMonth_value_def)

lemma addYears_NaN: "returned_value (addYears 0 n [None]) = None"
  by (simp add: addYears_def new_Date_copy_def alloc_def setUTCFullYear_def getUTCFullYear_def
      returned_value_def TimeClip_def setUTCFullYear_value_def num_add_def MakeDay_def
      MakeDate_def)

lemma addDays_value:
  assumes "valid_time t"
  shows "returned_value (addDays 0 n [Some t]) = TimeClip (Some (t + n * msPerDay))"
proof -
  have "(Day t + n) * msPerDay + TimeWithinDay t = t + n * msPerDay"
    using Day_TimeWithinDay[of t] by (simp add: algebra_simps)
  then show ?thesis
    using MakeDay_from_fields[of t n]
    by (simp add: addDays_def new_Date_copy_def alloc_def setUTCDate_def getUTCDate_def
        returned_value_def TimeClip_valid[OF assms] setUTCDate_value_def num_add_def MakeDate_def)
qed

lemma addMonths_value:
  assumes "valid_time t"
  shows "returned_value (addMonths 0 n [Some t]) =
    TimeClip (Some ((Day (FirstOfMonth (YearFromTime t + (MonthFromTime t + n) div 12)
                                        ((MonthFromTime t + n) mod 12))
                     + DateFromTime t - 1) * msPerDay + TimeWithinDay t))"
  by (simp add: addMonths_def new_Date_copy_def alloc_def setUTCMonth_def getUTCMonth_def
      returned_value_def TimeClip_valid[OF assms] setUTCMonth_value_def num_add_def MakeDate_def
      MakeDay_def Let_def)

lemma addYears_value:
  assumes "valid_time t"
  shows "returned_value (addYears 0 n [Some t]) =
    TimeClip (Some ((Day (FirstOfMonth (YearFromTime t + n) (MonthFromTime t))
                     + DateFromTime t - 1) * msPerDay + TimeWithinDay t))"
  using month_div_mod[OF MonthFromTime_range, of t]
  by (simp add: addYears_def new_Date_copy_def alloc_def setUTCFullYear_def getUTCFullYear_def
      returned_value_def TimeClip_valid[OF assms] setUTCFullYear_value_def num_add_def
      MakeDate_def MakeDay_def Let_def)

lemma calculateRevisionDates_heap:
  "calculateRevisionDates legacy (JString s) h =
     Inr (let start = TimeClip (Date_parse legacy (s @ ''T00:00:00.000Z'')); n = length h
      in ([n + 1, n + 2, n + 3, n + 4, n + 5],
          h @ [start,
               returned_value (addDays 0 7 [start]),
               returned_value (addMonths 0 1 [start]),
               returned_value (addMonths 0 3 [start]),
               returned_value (addMonths 0 6 [start]),
               returned_value (addYears 0 1 [start])]))"
  by (simp add: calculateRevisionDates_def plus_string_def ToString_def new_Date_string_def
      alloc_def addDays_heap[of "length h"] addMonths_heap[of "length h"]
      addYears_heap[of "length h"] nth_append Let_def)

text \<open>The one way the call can throw: a symbol cannot be converted to a string.\<close>

lemma calculateRevisionDates_symbol: "calculateRevisionDates legacy JSymbol h = Inl TypeError"
  by (simp add: calculateRevisionDates_def plus_string_def ToString_def)

lemma formatDate_heap: "snd (formatDate date h) = h"
  by (simp add: formatDate_def Let_def)

section \<open>Calendar dates as time values\<close>

lemma UTC_midnight_fields:
  assumes "0 \<le> m" and "m \<le> 11" and "1 \<le> d" and "d \<le> DaysInMonth m (leap y)"
  shows "YearFromTime (UTC_midnight y m d) = y" and "MonthFromTime (UTC_midnight y m d) = m"
    and "DateFromTime (UTC_midnight y m d) = d" and "TimeWithinDay (UTC_midnight y m d) = 0"
  using fields_of_date[OF assms(1,2,3) assms(4)[unfolded leap_def], of 0]
  by (simp_all add: UTC_midnight_def msPerDay_def)

lemma UTC_midnight_overflow:
  assumes "0 \<le> m" and "m \<le> 11" and "DaysInMonth m (leap y) < d" and "d \<le> 31"
  shows "UTC_midnight y m d = UTC_midnight y (m + 1) (d - DaysInMonth m (leap y))"
    and "m + 1 \<le> 11" and "1 \<le> d - DaysInMonth m (leap y)"
    and "d - DaysInMonth m (leap y) \<le> DaysInMonth (m + 1) (leap y)"
proof -
  have l: "leap y = 0 \<or> leap y = 1" by (simp add: leap_def)
  have "m \<noteq> 11" using assms(3,4) by (auto simp: DaysInMonth_def)
  with assms(2) show le: "m + 1 \<le> 11" by simp
  then have "m \<le> 10" by simp
  from DaysBeforeMonth_Suc[OF assms(1) this, of "leap y"]
  show "UTC_midnight y m d = UTC_midnight y (m + 1) (d - DaysInMonth m (leap y))"
    by (simp add: UTC_midnight_def Day_FirstOfMonth leap_def)
  show "1 \<le> d - DaysInMonth m (leap y)" using assms(3) by simp
  show "d - DaysInMonth m (leap y) \<le> DaysInMonth (m + 1) (leap y)"
    using assms(4) DaysInMonth_ge_28[OF l, of m] DaysInMonth_ge_28[OF l, of "m + 1"] by simp
qed

lemma UTC_midnight_add_days: "UTC_midnight y m d + n * msPerDay = UTC_midnight y m (d + n)"
  by (simp add: UTC_midnight_def algebra_simps)

lemma MakeDay_UTC_midnight:
  "MakeDate (MakeDay (Some y) (Some m) (Some d)) (Some 0)
     = Some (UTC_midnight (y + m div 12) (m mod 12) d)"
  by (simp add: MakeDate_def MakeDay_def Let_def UTC_midnight_def)

text \<open>Every day of the years 0 to 10000 is a time value a \<^verbatim>\<open>Date\<close> can hold.\<close>

lemma UTC_midnight_valid:
  assumes "0 \<le> y" and "y \<le> 10000" and "0 \<le> m" and "m \<le> 11" and "1 \<le> d" and "d \<le> 40"
  shows "valid_time (UTC_midnight y m d)"
proof -
  define D where "D = DayFromYear y"
  define B where "B = DaysBeforeMonth m (leap y)"
  have l: "0 \<le> leap y" "leap y \<le> 1" by (simp_all add: leap_def)
  have B: "0 \<le> B" "B \<le> 335"
    using l by (simp_all add: B_def DaysBeforeMonth_def)
  have "400 * D \<le> 146097 * (y - 1970) + 589" and "146097 * (y - 1970) - 506 \<le> 400 * D"
    unfolding D_def by (rule DayFromYear_upper, rule DayFromYear_lower)
  with assms(1,2) have D: "- 1000000 \<le> D" "D \<le> 3000000" by simp_all
  have "UTC_midnight y m d = (D + B + d - 1) * 86400000"
    by (simp add: UTC_midnight_def Day_FirstOfMonth D_def B_def leap_def msPerDay_def)
  moreover have "- 100000000 \<le> D + B + d - 1" "D + B + d - 1 \<le> 100000000"
    using D B assms(5,6) by simp_all
  ultimately show ?thesis by (simp add: valid_time_def abs_le_iff)
qed

section \<open>Parsing \<^verbatim>\<open>YYYY-MM-DD\<close>\<close>

lemma is_digit_not_sign:
  assumes "is_digit c"
  shows "c \<noteq> CHR ''+''" and "c \<noteq> CHR ''-''" and "c \<noteq> CHR ''T''"
  using assms by (auto simp: is_digit_def)

lemma digit_range:
  assumes "is_digit c"
  shows "0 \<le> int (of_char c) - 48" and "int (of_char c) - 48 \<le> 9"
  using assms by (simp_all add: is_digit_def)

lemma digits_value_4_range:
  assumes "list_all is_digit [a, b, c, d]"
  shows "0 \<le> digits_value [a, b, c, d]" and "digits_value [a, b, c, d] \<le> 9999"
  using assms digit_range[of a] digit_range[of b] digit_range[of c] digit_range[of d]
  by (simp_all add: digits_value_def)

lemma parse_time_part_midnight: "parse_time_part ''T00:00:00.000Z'' = Some (0, 0, 0, 0)"
  by (simp add: parse_time_part_def parse_digits_def is_digit_def digits_value_def)

lemma parse_date_part_YYYY_MM_DD:
  assumes "list_all is_digit [y1, y2, y3, y4, m1, m2, d1, d2]"
    and "1 \<le> digits_value [m1, m2]" and "digits_value [m1, m2] \<le> 12"
    and "1 \<le> digits_value [d1, d2]" and "digits_value [d1, d2] \<le> 31"
  shows "parse_date_part [y1, y2, y3, y4, CHR ''-'', m1, m2, CHR ''-'', d1, d2]
    = Some (digits_value [y1, y2, y3, y4], digits_value [m1, m2], digits_value [d1, d2])"
  using assms is_digit_not_sign[of y1]
  by (simp add: parse_date_part_def parse_year_def parse_digits_def)

lemma Date_parse_YYYY_MM_DD:
  assumes "list_all is_digit [y1, y2, y3, y4, m1, m2, d1, d2]"
    and "1 \<le> digits_value [m1, m2]" and "digits_value [m1, m2] \<le> 12"
    and "1 \<le> digits_value [d1, d2]" and "digits_value [d1, d2] \<le> 31"
  shows "Date_parse legacy
      ([y1, y2, y3, y4, CHR ''-'', m1, m2, CHR ''-'', d1, d2] @ ''T00:00:00.000Z'')
    = Some (UTC_midnight (digits_value [y1, y2, y3, y4]) (digits_value [m1, m2] - 1)
              (digits_value [d1, d2]))"
proof -
  have tw: "takeWhile (\<lambda>c. c \<noteq> CHR ''T'')
        ([y1, y2, y3, y4, CHR ''-'', m1, m2, CHR ''-'', d1, d2] @ ''T00:00:00.000Z'')
      = [y1, y2, y3, y4, CHR ''-'', m1, m2, CHR ''-'', d1, d2]"
    and dw: "dropWhile (\<lambda>c. c \<noteq> CHR ''T'')
        ([y1, y2, y3, y4, CHR ''-'', m1, m2, CHR ''-'', d1, d2] @ ''T00:00:00.000Z'')
      = ''T00:00:00.000Z''"
    using assms(1) is_digit_not_sign(3) by simp_all
  have md: "(digits_value [m1, m2] - 1) div 12 = 0" "(digits_value [m1, m2] - 1) mod 12 = digits_value [m1, m2] - 1"
    using assms(2,3) by (simp_all add: div_pos_pos_trivial mod_pos_pos_trivial)
  show ?thesis
    unfolding Date_parse_def tw dw parse_date_part_YYYY_MM_DD[OF assms] parse_time_part_midnight
    using MakeDay_UTC_midnight[of "digits_value [y1, y2, y3, y4]" "digits_value [m1, m2] - 1"
        "digits_value [d1, d2]"]
    by (simp add: md MakeTime_def)
qed

section \<open>Formatting\<close>

lemma formatDate_invalid:
  assumes "h ! date = None"
  shows "fst (formatDate date h) = ''NaNth Invalid Date NaN''"
  using assms
  by (simp add: formatDate_def getUTCDate_def getUTCFullYear_def toLocaleDateString_month_long_UTC_def
      getOrdinalSuffix_def num_ge_def num_le_def num_rem_def Number_toString_def Let_def)

lemma map_formatDate_fst:
  "fst (map_formatDate ds h) = map (\<lambda>d. fst (formatDate d h)) ds"
  and map_formatDate_snd: "snd (map_formatDate ds h) = h"
  by (induction ds arbitrary: h) (simp_all add: formatDate_heap split_beta Let_def)

section \<open>The fields of the dates the offset functions return\<close>

lemma month_mod_range: "0 \<le> (m::int) mod 12" "m mod 12 \<le> 11"
  by simp_all

lemma addMonths_fields:
  fixes t n :: int
  assumes "valid_time t"
  defines "ym \<equiv> YearFromTime t + (MonthFromTime t + n) div 12"
  defines "mn \<equiv> (MonthFromTime t + n) mod 12"
  shows "\<exists>t'. returned_value (addMonths 0 n [Some t]) = TimeClip (Some t')
      \<and> YearFromTime t' = ym \<and> TimeWithinDay t' = TimeWithinDay t
      \<and> (if DateFromTime t \<le> DaysInMonth mn (leap ym)
          then MonthFromTime t' = mn \<and> DateFromTime t' = DateFromTime t
          else MonthFromTime t' = mn + 1
             \<and> DateFromTime t' = DateFromTime t - DaysInMonth mn (leap ym))"
proof -
  define t' where "t' = (Day (FirstOfMonth ym mn) + DateFromTime t - 1) * msPerDay + TimeWithinDay t"
  have mn: "0 \<le> mn" "mn \<le> 11" unfolding mn_def by (rule month_mod_range)+
  have v: "returned_value (addMonths 0 n [Some t]) = TimeClip (Some t')"
    unfolding t'_def ym_def mn_def by (rule addMonths_value[OF assms(1)])
  show ?thesis
  proof (cases "DateFromTime t \<le> DaysInMonth mn (leap ym)")
    case True
    note f = fields_of_date[OF mn DateFromTime_lower True[unfolded leap_def] TimeWithinDay_range,
        of t, folded t'_def]
    show ?thesis using v True f by auto
  next
    case False
    then have lt: "DaysInMonth mn (leap ym) < DateFromTime t" by simp
    note f = fields_of_date_overflow[OF mn lt[unfolded leap_def] DateFromTime_upper
        TimeWithinDay_range, of t, folded t'_def leap_def]
    show ?thesis using v False f by auto
  qed
qed

lemma addYears_fields:
  fixes t n :: int
  assumes "valid_time t"
  defines "ym \<equiv> YearFromTime t + n"
  defines "mn \<equiv> MonthFromTime t"
  shows "\<exists>t'. returned_value (addYears 0 n [Some t]) = TimeClip (Some t')
      \<and> YearFromTime t' = ym \<and> TimeWithinDay t' = TimeWithinDay t
      \<and> (if DateFromTime t \<le> DaysInMonth mn (leap ym)
          then MonthFromTime t' = mn \<and> DateFromTime t' = DateFromTime t
          else mn = 1 \<and> DateFromTime t = 29 \<and> MonthFromTime t' = 2 \<and> DateFromTime t' = 1)"
proof -
  define t' where "t' = (Day (FirstOfMonth ym mn) + DateFromTime t - 1) * msPerDay + TimeWithinDay t"
  have mn: "0 \<le> mn" "mn \<le> 11" unfolding mn_def by (rule MonthFromTime_range)+
  have v: "returned_value (addYears 0 n [Some t]) = TimeClip (Some t')"
    unfolding t'_def ym_def mn_def by (rule addYears_value[OF assms(1)])
  show ?thesis
  proof (cases "DateFromTime t \<le> DaysInMonth mn (leap ym)")
    case True
    note f = fields_of_date[OF mn DateFromTime_lower True[unfolded leap_def] TimeWithinDay_range,
        of t, folded t'_def]
    show ?thesis using v True f by auto
  next
    case False
    then have lt: "DaysInMonth mn (leap ym) < DateFromTime t" by simp
    have src: "DateFromTime t \<le> DaysInMonth mn (InLeapYear t)"
      unfolding mn_def by (rule DateFromTime_upper_month)
    have l: "0 \<le> leap ym" "leap ym \<le> 1" "0 \<le> InLeapYear t" "InLeapYear t \<le> 1"
      using InLeapYear_cases[of t] by (auto simp: leap_def)
    have feb: "mn = 1" using lt src by (auto simp: DaysInMonth_def split: if_splits)
    then have d29: "DateFromTime t = 29" and dim: "DaysInMonth mn (leap ym) = 28"
      using lt src l by (auto simp: DaysInMonth_def)
    note f = fields_of_date_overflow[OF mn lt[unfolded leap_def] DateFromTime_upper
        TimeWithinDay_range, of t, folded t'_def leap_def]
    show ?thesis using v False f feb d29 dim by auto
  qed
qed

section \<open>Some dates, evaluated\<close>

lemma DayFromYear_values:
  "DayFromYear 2024 = 19723" "DayFromYear 2025 = 20089" "DayFromYear 2026 = 20454"
  "DayFromYear 2027 = 20819"
  by (simp_all add: DayFromYear_def)

lemma leap_values: "leap 2024 = 1" "leap 2025 = 0" "leap 2026 = 0" "leap 2027 = 0"
  by (simp_all add: leap_def DaysInYear_def)

lemma Date_parse_values:
  "Date_parse legacy ''2026-01-31T00:00:00.000Z'' = Some (UTC_midnight 2026 0 31)"
  "Date_parse legacy ''2026-03-03T00:00:00.000Z'' = Some (UTC_midnight 2026 2 3)"
  "Date_parse legacy ''2026-02-28T00:00:00.000Z'' = Some (UTC_midnight 2026 1 28)"
  "Date_parse legacy ''2024-02-29T00:00:00.000Z'' = Some (UTC_midnight 2024 1 29)"
  "Date_parse legacy ''2025-03-01T00:00:00.000Z'' = Some (UTC_midnight 2025 2 1)"
  "Date_parse legacy ''2026-07-19T00:00:00.000Z'' = Some (UTC_midnight 2026 6 19)"
  using Date_parse_YYYY_MM_DD[of "CHR ''2''" "CHR ''0''" "CHR ''2''" "CHR ''6''"
      "CHR ''0''" "CHR ''1''" "CHR ''3''" "CHR ''1''"]
    Date_parse_YYYY_MM_DD[of "CHR ''2''" "CHR ''0''" "CHR ''2''" "CHR ''6''"
      "CHR ''0''" "CHR ''3''" "CHR ''0''" "CHR ''3''"]
    Date_parse_YYYY_MM_DD[of "CHR ''2''" "CHR ''0''" "CHR ''2''" "CHR ''6''"
      "CHR ''0''" "CHR ''2''" "CHR ''2''" "CHR ''8''"]
    Date_parse_YYYY_MM_DD[of "CHR ''2''" "CHR ''0''" "CHR ''2''" "CHR ''4''"
      "CHR ''0''" "CHR ''2''" "CHR ''2''" "CHR ''9''"]
    Date_parse_YYYY_MM_DD[of "CHR ''2''" "CHR ''0''" "CHR ''2''" "CHR ''5''"
      "CHR ''0''" "CHR ''3''" "CHR ''0''" "CHR ''1''"]
    Date_parse_YYYY_MM_DD[of "CHR ''2''" "CHR ''0''" "CHR ''2''" "CHR ''6''"
      "CHR ''0''" "CHR ''7''" "CHR ''1''" "CHR ''9''"]
  by (simp_all add: is_digit_def digits_value_def)

lemma UTC_midnight_value:
  "UTC_midnight y m d = (DayFromYear y + DaysBeforeMonth m (leap y) + d - 1) * 86400000"
  by (simp add: UTC_midnight_def Day_FirstOfMonth leap_def msPerDay_def)

lemma UTC_midnight_values:
  "UTC_midnight 2026 0 31 = 1769817600000"
  "UTC_midnight 2026 1 28 = 1772236800000"
  "UTC_midnight 2026 2 3 = 1772496000000"
  "UTC_midnight 2024 1 29 = 1709164800000"
  "UTC_midnight 2025 2 1 = 1740787200000"
  "UTC_midnight 2026 6 19 = 1784419200000"
  by (simp_all add: UTC_midnight_value DayFromYear_values leap_values DaysBeforeMonth_def)


section \<open>Arguments are left alone\<close>

text \<open>
  C8. \<^verbatim>\<open>addDays\<close>, \<^verbatim>\<open>addMonths\<close>, \<^verbatim>\<open>addYears\<close> and \<^verbatim>\<open>formatDate\<close> never mutate their
  argument. Each offset function returns a new object (a reference the heap did not hold)
  and leaves every object that existed before the call as it was, the argument among
  them; \<^verbatim>\<open>formatDate\<close> leaves the whole heap as it was, so a second call prints the same
  string.
\<close>

theorem offsets_and_formatDate_do_not_mutate:
  assumes "date < length h"
  shows "fst (addDays date n h) = length h
       \<and> take (length h) (snd (addDays date n h)) = h
       \<and> snd (addDays date n h) ! date = h ! date
     \<and> fst (addMonths date n h) = length h
       \<and> take (length h) (snd (addMonths date n h)) = h
       \<and> snd (addMonths date n h) ! date = h ! date
     \<and> fst (addYears date n h) = length h
       \<and> take (length h) (snd (addYears date n h)) = h
       \<and> snd (addYears date n h) ! date = h ! date
     \<and> snd (formatDate date h) = h
       \<and> fst (formatDate date (snd (formatDate date h))) = fst (formatDate date h)"
  using assms
  by (simp add: addDays_heap[of date n h] addMonths_heap[of date n h] addYears_heap[of date n h]
      formatDate_heap nth_append)

theorem offsets_and_formatDate_do_not_mutate_witness:
  "(0::nat) < length [Some (86400000::int)]
   \<and> fst (addDays 0 7 [Some 86400000]) = 1
   \<and> snd (addDays 0 7 [Some 86400000]) ! 0 = Some 86400000
   \<and> snd (addMonths 0 7 [Some 86400000]) ! 0 = Some 86400000
   \<and> snd (addYears 0 7 [Some 86400000]) ! 0 = Some 86400000
   \<and> snd (formatDate 0 [Some 86400000]) = [Some 86400000]"
  using offsets_and_formatDate_do_not_mutate[of 0 "[Some 86400000]" 7] by simp

lemma fields_2026_01_31:
  "YearFromTime 1769817600000 = 2026" "MonthFromTime 1769817600000 = 0"
  "DateFromTime 1769817600000 = 31" "TimeWithinDay 1769817600000 = 0"
  using UTC_midnight_fields[of 0 31 2026]
  by (simp_all add: UTC_midnight_values leap_values DaysInMonth_def)

lemma fields_2024_02_29:
  "YearFromTime 1709164800000 = 2024" "MonthFromTime 1709164800000 = 1"
  "DateFromTime 1709164800000 = 29" "TimeWithinDay 1709164800000 = 0"
  using UTC_midnight_fields[of 1 29 2024]
  by (simp_all add: UTC_midnight_values leap_values DaysInMonth_def)

lemma DaysInYear_values: "DaysInYear 2025 = 365" "DaysInYear 2026 = 365" "DaysInYear 2027 = 365"
  by (simp_all add: DaysInYear_def)

lemma addMonths_2026_01_31:
  "returned_value (addMonths 0 1 [Some 1769817600000]) = Some 1772496000000"
  using addMonths_value[of 1769817600000 1]
  by (simp add: valid_time_def fields_2026_01_31 Day_FirstOfMonth DayFromYear_values
      DaysInYear_values DaysBeforeMonth_def msPerDay_def TimeClip_def)

lemma addYears_2024_02_29:
  "returned_value (addYears 0 1 [Some 1709164800000]) = Some 1740787200000"
  using addYears_value[of 1709164800000 1]
  by (simp add: valid_time_def fields_2024_02_29 Day_FirstOfMonth DayFromYear_values
      DaysInYear_values DaysBeforeMonth_def msPerDay_def TimeClip_def)

text \<open>
  C3. \<^verbatim>\<open>addMonths\<close> shifts the UTC month field by \<open>n\<close> and keeps the day of the month as
  it is: for every valid date the result (before the range check of \<open>TimeClip\<close>) lies in
  the year and month that \<open>month + n\<close> normalises to, at the same time of day, on the same
  day of the month when that month has such a day, and otherwise in the following month,
  on the day left over beyond the month's length. Nothing is clamped; in particular one
  month after 2026-01-31 is 2026-03-03, not 2026-02-28.
\<close>

theorem addMonths_rolls_over:
  fixes t n :: int
  assumes "date < length h" and "h ! date = Some t" and "valid_time t"
  shows "(\<exists>t'. returned_value (addMonths date n h) = TimeClip (Some t')
           \<and> YearFromTime t' = YearFromTime t + (MonthFromTime t + n) div 12
           \<and> TimeWithinDay t' = TimeWithinDay t
           \<and> (if DateFromTime t
                   \<le> DaysInMonth ((MonthFromTime t + n) mod 12)
                        (leap (YearFromTime t + (MonthFromTime t + n) div 12))
               then MonthFromTime t' = (MonthFromTime t + n) mod 12
                  \<and> DateFromTime t' = DateFromTime t
               else MonthFromTime t' = (MonthFromTime t + n) mod 12 + 1
                  \<and> DateFromTime t' = DateFromTime t
                       - DaysInMonth ((MonthFromTime t + n) mod 12)
                           (leap (YearFromTime t + (MonthFromTime t + n) div 12))))
       \<and> returned_value (addMonths 0 1 [Date_parse legacy ''2026-01-31T00:00:00.000Z''])
           = Date_parse legacy ''2026-03-03T00:00:00.000Z''
       \<and> returned_value (addMonths 0 1 [Date_parse legacy ''2026-01-31T00:00:00.000Z''])
           \<noteq> Date_parse legacy ''2026-02-28T00:00:00.000Z''"
proof -
  have "returned_value (addMonths date n h) = returned_value (addMonths 0 n [Some t])"
    by (simp add: addMonths_heap[of date n h] returned_value_def assms(2))
  then show ?thesis
    using addMonths_fields[OF assms(3), of n]
    by (simp add: Date_parse_values UTC_midnight_values addMonths_2026_01_31)
qed

theorem addMonths_rolls_over_witness:
  "(0::nat) < length [Some (1769817600000::int)] \<and> valid_time 1769817600000
   \<and> (\<exists>t'. returned_value (addMonths 0 1 [Some 1769817600000]) = TimeClip (Some t')
         \<and> YearFromTime t' = 2026 \<and> TimeWithinDay t' = 0
         \<and> MonthFromTime t' = 2 \<and> DateFromTime t' = 3)"
proof -
  have v: "valid_time 1769817600000" by (simp add: valid_time_def)
  show ?thesis
    using v addMonths_rolls_over[of 0 "[Some 1769817600000]" 1769817600000 1]
    by (simp add: fields_2026_01_31 leap_values DaysInMonth_def)
qed

text \<open>
  C4. \<^verbatim>\<open>addYears\<close> adds \<open>n\<close> to the UTC year field and keeps the month, the day and the
  time of day: for every valid date the result (before the range check of \<open>TimeClip\<close>)
  has year \<open>year + n\<close> and the same month and day, except that 29 February in a target
  year without one becomes 1 March. In particular one year after 2024-02-29 is
  2025-03-01.
\<close>

theorem addYears_keeps_month_and_day:
  fixes t n :: int
  assumes "date < length h" and "h ! date = Some t" and "valid_time t"
  shows "(\<exists>t'. returned_value (addYears date n h) = TimeClip (Some t')
           \<and> YearFromTime t' = YearFromTime t + n
           \<and> TimeWithinDay t' = TimeWithinDay t
           \<and> (if DateFromTime t \<le> DaysInMonth (MonthFromTime t) (leap (YearFromTime t + n))
               then MonthFromTime t' = MonthFromTime t \<and> DateFromTime t' = DateFromTime t
               else MonthFromTime t = 1 \<and> DateFromTime t = 29
                  \<and> MonthFromTime t' = 2 \<and> DateFromTime t' = 1))
       \<and> returned_value (addYears 0 1 [Date_parse legacy ''2024-02-29T00:00:00.000Z''])
           = Date_parse legacy ''2025-03-01T00:00:00.000Z''"
proof -
  have "returned_value (addYears date n h) = returned_value (addYears 0 n [Some t])"
    by (simp add: addYears_heap[of date n h] returned_value_def assms(2))
  then show ?thesis
    using addYears_fields[OF assms(3), of n]
    by (simp add: Date_parse_values UTC_midnight_values addYears_2024_02_29)
qed

theorem addYears_keeps_month_and_day_witness:
  "(0::nat) < length [Some (1709164800000::int)] \<and> valid_time 1709164800000
   \<and> (\<exists>t'. returned_value (addYears 0 1 [Some 1709164800000]) = TimeClip (Some t')
         \<and> YearFromTime t' = 2025 \<and> TimeWithinDay t' = 0
         \<and> MonthFromTime t' = 2 \<and> DateFromTime t' = 1)"
proof -
  have v: "valid_time 1709164800000" by (simp add: valid_time_def)
  show ?thesis
    using v addYears_keeps_month_and_day[of 0 "[Some 1709164800000]" 1709164800000 1]
    by (simp add: fields_2024_02_29 leap_values DaysInMonth_def)
qed

lemma getOrdinalSuffix_rule:
  assumes "0 \<le> d"
  shows "getOrdinalSuffix (Some d) = ordinal_rule d"
proof -
  have "sgn d * (\<bar>d\<bar> mod 10) = d mod 10"
    using assms by (cases "d = 0") simp_all
  then show ?thesis
    by (simp add: getOrdinalSuffix_def ordinal_rule_def num_ge_def num_le_def num_rem_def Let_def)
qed

lemma ordinal_rule_table:
  assumes "1 \<le> d" and "d \<le> 31"
  shows "ordinal_rule d =
     (if d \<in> {1, 21, 31} then ''st''
      else if d \<in> {2, 22} then ''nd''
      else if d \<in> {3, 23} then ''rd''
      else ''th'')"
proof -
  define q where "q = d div 10"
  define r where "r = d mod 10"
  have d: "d = 10 * q + r" and r: "0 \<le> r" "r < 10" by (simp_all add: q_def r_def)
  have q: "0 \<le> q" "q \<le> 3" using assms by (simp_all add: q_def)
  then consider "q = 0" | "q = 1" | "q = 2" | "q = 3" by linarith
  then show ?thesis
  proof cases
    case 1
    then show ?thesis using d r r_def by (auto simp: ordinal_rule_def)
  next
    case 2
    then show ?thesis using d r r_def by (auto simp: ordinal_rule_def)
  next
    case 3
    then show ?thesis using d r r_def by (auto simp: ordinal_rule_def)
  next
    case 4
    then show ?thesis using d r r_def assms(2) by (auto simp: ordinal_rule_def)
  qed
qed

lemma formatDate_valid:
  assumes "h ! date = Some t"
  shows "fst (formatDate date h) =
     Number_toString (Some (DateFromTime t)) @ ordinal_rule (DateFromTime t) @ '' ''
       @ monthName (MonthFromTime t) @ '' '' @ Number_toString (Some (YearFromTime t))"
  using assms getOrdinalSuffix_rule[of "DateFromTime t"] DateFromTime_lower[of t]
  by (simp add: formatDate_def getUTCDate_def getUTCFullYear_def
      toLocaleDateString_month_long_UTC_def Let_def)

subsection \<open>Decimal numerals and month names\<close>

lemma digit_char_props:
  assumes "k < 10"
  shows "is_digit (digit_char k)" and "int (of_char (digit_char k)) - 48 = int k"
    and "digit_char k = CHR ''0'' \<longleftrightarrow> k = 0"
proof -
  have "k = 0 \<or> k = 1 \<or> k = 2 \<or> k = 3 \<or> k = 4 \<or> k = 5 \<or> k = 6 \<or> k = 7 \<or> k = 8 \<or> k = 9"
    using assms by presburger
  then have "is_digit (digit_char k) \<and> int (of_char (digit_char k)) - 48 = int k
      \<and> (digit_char k = CHR ''0'' \<longleftrightarrow> k = 0)"
    by (elim disjE) (simp_all add: digit_char_def is_digit_def)
  then show "is_digit (digit_char k)" and "int (of_char (digit_char k)) - 48 = int k"
    and "digit_char k = CHR ''0'' \<longleftrightarrow> k = 0"
    by simp_all
qed

lemma digits_value_snoc:
  "digits_value (xs @ [c]) = 10 * digits_value xs + (int (of_char c) - 48)"
  by (simp add: digits_value_def)

lemma show_nat_decimal: "decimal_nat (show_nat n) (int n)"
proof (induction n rule: show_nat.induct)
  case (1 n)
  show ?case
  proof (cases "n < 10")
    case True
    then show ?thesis
      using digit_char_props[OF True]
      by (auto simp: show_nat.simps[of n] decimal_nat_def digits_value_def)
  next
    case False
    have r: "n mod 10 < 10" by simp
    note ih = 1[OF False, unfolded decimal_nat_def]
    have ne: "show_nat (n div 10) \<noteq> []" using ih by simp
    have v: "digits_value (show_nat (n div 10)) = int (n div 10)" using ih by simp
    have pos: "0 < n div 10" using False by simp
    have nz: "show_nat (n div 10) \<noteq> ''0''"
    proof
      assume "show_nat (n div 10) = ''0''"
      then have "digits_value (show_nat (n div 10)) = 0" by (simp add: digits_value_def)
      with v pos show False by simp
    qed
    have eq: "show_nat n = show_nat (n div 10) @ [digit_char (n mod 10)]"
      using False by (simp add: show_nat.simps[of n])
    have "10 * (int n div 10) + int n mod 10 = int n" by (rule mult_div_mod_eq)
    then have "10 * int (n div 10) + int (n mod 10) = int n"
      by (simp only: zdiv_int zmod_int of_nat_numeral)
    then have val: "digits_value (show_nat n) = int n"
      unfolding eq digits_value_snoc v digit_char_props(2)[OF r] .
    show ?thesis
      unfolding decimal_nat_def
      using ih ne nz val digit_char_props(1)[OF r]
      by (simp add: eq)
  qed
qed

lemma Number_toString_decimal: "decimal (Number_toString (Some i)) i"
proof (cases "i < 0")
  case True
  then show ?thesis
    using show_nat_decimal[of "nat (- i)"] by (simp add: Number_toString_def decimal_def)
next
  case False
  then show ?thesis
    using show_nat_decimal[of "nat i"] by (simp add: Number_toString_def decimal_def)
qed

text \<open>The numeral is unique: a string with the property is the one \<^verbatim>\<open>ToString\<close> prints.\<close>

lemma is_digit_cases:
  assumes "is_digit c"
  shows "c \<in> set ''0123456789''"
proof -
  define k where "k = (of_char c :: nat)"
  have c: "c = char_of k" by (simp add: k_def)
  have "48 \<le> k" "k \<le> 57" using assms by (simp_all add: is_digit_def k_def)
  then have "k = 48 \<or> k = 49 \<or> k = 50 \<or> k = 51 \<or> k = 52 \<or> k = 53 \<or> k = 54 \<or> k = 55
      \<or> k = 56 \<or> k = 57"
    by presburger
  then show ?thesis
    unfolding c by (elim disjE) (simp_all add: char_of_def bit_0)
qed

lemma is_digit_digit_char:
  assumes "is_digit c"
  shows "\<exists>k<10. c = digit_char k \<and> int (of_char c) - 48 = int k"
proof -
  from is_digit_cases[OF assms]
  have "c = CHR ''0'' \<or> c = CHR ''1'' \<or> c = CHR ''2'' \<or> c = CHR ''3'' \<or> c = CHR ''4''
      \<or> c = CHR ''5'' \<or> c = CHR ''6'' \<or> c = CHR ''7'' \<or> c = CHR ''8'' \<or> c = CHR ''9''"
    by simp
  then show ?thesis
  proof (elim disjE)
    assume "c = CHR ''0''" then show ?thesis by (intro exI[of _ 0]) (simp add: digit_char_def)
  next
    assume "c = CHR ''1''" then show ?thesis by (intro exI[of _ 1]) (simp add: digit_char_def)
  next
    assume "c = CHR ''2''" then show ?thesis by (intro exI[of _ 2]) (simp add: digit_char_def)
  next
    assume "c = CHR ''3''" then show ?thesis by (intro exI[of _ 3]) (simp add: digit_char_def)
  next
    assume "c = CHR ''4''" then show ?thesis by (intro exI[of _ 4]) (simp add: digit_char_def)
  next
    assume "c = CHR ''5''" then show ?thesis by (intro exI[of _ 5]) (simp add: digit_char_def)
  next
    assume "c = CHR ''6''" then show ?thesis by (intro exI[of _ 6]) (simp add: digit_char_def)
  next
    assume "c = CHR ''7''" then show ?thesis by (intro exI[of _ 7]) (simp add: digit_char_def)
  next
    assume "c = CHR ''8''" then show ?thesis by (intro exI[of _ 8]) (simp add: digit_char_def)
  next
    assume "c = CHR ''9''" then show ?thesis by (intro exI[of _ 9]) (simp add: digit_char_def)
  qed
qed

lemma digits_value_nonneg: "list_all is_digit xs \<Longrightarrow> 0 \<le> digits_value xs"
proof (induction xs rule: rev_induct)
  case Nil
  show ?case by (simp add: digits_value_def)
next
  case (snoc c xs)
  then show ?case using digit_range(1)[of c] by (simp add: digits_value_snoc)
qed

lemma decimal_nat_unique:
  assumes "decimal_nat s n"
  shows "s = show_nat (nat n)"
  using assms
proof (induction s arbitrary: n rule: rev_induct)
  case Nil
  then show ?case by (simp add: decimal_nat_def)
next
  case (snoc c xs)
  from snoc.prems have dc: "is_digit c" and dx: "list_all is_digit xs"
    and n: "n = 10 * digits_value xs + (int (of_char c) - 48)"
    and lead: "hd (xs @ [c]) = CHR ''0'' \<longrightarrow> xs @ [c] = ''0''"
    by (simp_all add: decimal_nat_def digits_value_snoc)
  from is_digit_digit_char[OF dc] obtain k where k: "k < 10" "c = digit_char k"
    "int (of_char c) - 48 = int k" by blast
  show ?case
  proof (cases "xs = []")
    case True
    then have "n = int k" using n k(3) by (simp add: digits_value_def)
    then show ?thesis using True k by (simp add: show_nat.simps[of k])
  next
    case False
    then have "hd xs \<noteq> CHR ''0''" using lead by (cases xs) auto
    then have "decimal_nat xs (digits_value xs)" using False dx by (simp add: decimal_nat_def)
    from snoc.IH[OF this] have xs: "xs = show_nat (nat (digits_value xs))" .
    define m where "m = nat (digits_value xs)"
    have mv: "digits_value xs = int m" using digits_value_nonneg[OF dx] by (simp add: m_def)
    have "m \<noteq> 0"
    proof
      assume "m = 0"
      then have "xs = ''0''" using xs by (simp add: m_def show_nat.simps[of 0] digit_char_def)
      with \<open>hd xs \<noteq> CHR ''0''\<close> show False by simp
    qed
    have nn: "nat n = 10 * m + k" using n mv k(3) by simp
    then have "\<not> nat n < 10" "nat n div 10 = m" "nat n mod 10 = k"
      using \<open>m \<noteq> 0\<close> k(1) by simp_all
    then have "show_nat (nat n) = show_nat m @ [digit_char k]"
      by (simp add: show_nat.simps[of "nat n"])
    then show ?thesis using xs k(2) by (simp add: m_def)
  qed
qed

lemma decimal_unique:
  assumes "decimal s n"
  shows "s = Number_toString (Some n)"
proof (cases "n < 0")
  case True
  then have "s \<noteq> []" "hd s = CHR ''-''" "decimal_nat (tl s) (- n)"
    using assms by (simp_all add: decimal_def)
  then show ?thesis
    using True decimal_nat_unique[of "tl s" "- n"] by (cases s) (simp_all add: Number_toString_def)
next
  case False
  then show ?thesis
    using assms decimal_nat_unique[of s n] by (simp add: decimal_def Number_toString_def)
qed

lemma monthName_table:
  assumes "0 \<le> m" and "m \<le> 11"
  shows "monthName m =
     [''January'', ''February'', ''March'', ''April'', ''May'', ''June'', ''July'',
      ''August'', ''September'', ''October'', ''November'', ''December''] ! nat m"
  using assms by (cases rule: month_cases) (simp_all add: monthName_def)

text \<open>
  C6. For every valid date \<^verbatim>\<open>formatDate\<close> returns the UTC day of the month as a decimal
  numeral, its ordinal suffix, a space, the full English name of the UTC month, a space
  and the UTC year as a decimal numeral. The suffix follows the rule "11 to 13 take th,
  otherwise the last digit decides: 1 st, 2 nd, 3 rd, else th", which on the days 1 to 31
  a date can have is the table: 1, 21, 31 st; 2, 22 nd; 3, 23 rd; every other day th.
\<close>

theorem formatDate_shape:
  assumes "date < length h" and "h ! date = Some t"
  shows "\<exists>day suffix month year.
       fst (formatDate date h) = day @ suffix @ '' '' @ month @ '' '' @ year
     \<and> decimal day (DateFromTime t)
     \<and> suffix = getOrdinalSuffix (getUTCDate date h)
     \<and> suffix = (if 11 \<le> DateFromTime t \<and> DateFromTime t \<le> 13 then ''th''
                  else if DateFromTime t mod 10 = 1 then ''st''
                  else if DateFromTime t mod 10 = 2 then ''nd''
                  else if DateFromTime t mod 10 = 3 then ''rd''
                  else ''th'')
     \<and> suffix = (if DateFromTime t \<in> {1, 21, 31} then ''st''
                  else if DateFromTime t \<in> {2, 22} then ''nd''
                  else if DateFromTime t \<in> {3, 23} then ''rd''
                  else ''th'')
     \<and> month = [''January'', ''February'', ''March'', ''April'', ''May'', ''June'', ''July'',
                 ''August'', ''September'', ''October'', ''November'', ''December'']
                ! nat (MonthFromTime t)
     \<and> decimal year (YearFromTime t)
     \<and> 1 \<le> DateFromTime t \<and> DateFromTime t \<le> 31
     \<and> 0 \<le> MonthFromTime t \<and> MonthFromTime t \<le> 11"
proof -
  have s1: "getOrdinalSuffix (getUTCDate date h) = ordinal_rule (DateFromTime t)"
    using getOrdinalSuffix_rule[of "DateFromTime t"] DateFromTime_lower[of t] assms(2)
    by (simp add: getUTCDate_def)
  have s2: "ordinal_rule (DateFromTime t) =
      (if 11 \<le> DateFromTime t \<and> DateFromTime t \<le> 13 then ''th''
       else if DateFromTime t mod 10 = 1 then ''st''
       else if DateFromTime t mod 10 = 2 then ''nd''
       else if DateFromTime t mod 10 = 3 then ''rd''
       else ''th'')"
    by (simp add: ordinal_rule_def)
  note s3 = ordinal_rule_table[OF DateFromTime_lower DateFromTime_upper, of t]
  note m = monthName_table[OF MonthFromTime_range, of t]
  show ?thesis
    apply (rule exI[of _ "Number_toString (Some (DateFromTime t))"])
    apply (rule exI[of _ "ordinal_rule (DateFromTime t)"])
    apply (rule exI[of _ "monthName (MonthFromTime t)"])
    apply (rule exI[of _ "Number_toString (Some (YearFromTime t))"])
    apply (intro conjI)
                apply (rule formatDate_valid[OF assms(2)])
               apply (rule Number_toString_decimal)
              apply (rule s1[symmetric])
             apply (rule s2)
            apply (rule s3)
           apply (rule m)
          apply (rule Number_toString_decimal)
         apply (rule DateFromTime_lower)
        apply (rule DateFromTime_upper)
       apply (rule MonthFromTime_range(1))
      apply (rule MonthFromTime_range(2))
    done
qed

lemma fields_2026_07_19:
  "YearFromTime 1784419200000 = 2026" "MonthFromTime 1784419200000 = 6"
  "DateFromTime 1784419200000 = 19" "TimeWithinDay 1784419200000 = 0"
  using UTC_midnight_fields[of 6 19 2026]
  by (simp_all add: UTC_midnight_values leap_values DaysInMonth_def)

lemma show_19: "Number_toString (Some 19) = ''19''"
  and show_26: "Number_toString (Some 26) = ''26''"
  and show_2026: "Number_toString (Some 2026) = ''2026''"
  and show_2027: "Number_toString (Some 2027) = ''2027''"
  by (simp_all add: Number_toString_def show_nat.simps digit_char_def)

theorem formatDate_shape_witness:
  "(0::nat) < length [Some (1784419200000::int)]
   \<and> (\<exists>day year. fst (formatDate 0 [Some 1784419200000]) = day @ ''th July '' @ year
         \<and> decimal day 19 \<and> decimal year 2026)
   \<and> fst (formatDate 0 [Some 1784419200000]) = ''19th July 2026''"
proof -
  from formatDate_shape[of 0 "[Some 1784419200000]" 1784419200000]
  obtain day suffix month year where
    "fst (formatDate 0 [Some 1784419200000]) = day @ suffix @ '' '' @ month @ '' '' @ year"
    "decimal day 19" "suffix = ''th''" "month = ''July''" "decimal year 2026"
    by (auto simp: fields_2026_07_19)
  then have "\<exists>day year. fst (formatDate 0 [Some 1784419200000]) = day @ ''th July '' @ year
         \<and> decimal day 19 \<and> decimal year 2026"
    by auto
  moreover have "fst (formatDate 0 [Some 1784419200000]) = ''19th July 2026''"
    using formatDate_valid[of "[Some 1784419200000]" 0 1784419200000]
    by (simp add: fields_2026_07_19 show_19 show_2026 ordinal_rule_def monthName_def)
  ultimately show ?thesis by simp
qed

section \<open>The schedule of a valid start date\<close>

lemma addDays_UTC_midnight:
  assumes "valid_time (UTC_midnight y m d)"
  shows "returned_value (addDays 0 n [Some (UTC_midnight y m d)])
    = TimeClip (Some (UTC_midnight y m (d + n)))"
  using addDays_value[OF assms, of n] by (simp add: UTC_midnight_add_days)

lemma addMonths_UTC_midnight:
  assumes "0 \<le> m" and "m \<le> 11" and "1 \<le> d" and "d \<le> DaysInMonth m (leap y)"
    and "valid_time (UTC_midnight y m d)"
  shows "returned_value (addMonths 0 n [Some (UTC_midnight y m d)])
    = TimeClip (Some (UTC_midnight (y + (m + n) div 12) ((m + n) mod 12) d))"
  using addMonths_value[OF assms(5), of n] UTC_midnight_fields[OF assms(1-4)]
  by (simp add: UTC_midnight_def)

lemma addYears_UTC_midnight:
  assumes "0 \<le> m" and "m \<le> 11" and "1 \<le> d" and "d \<le> DaysInMonth m (leap y)"
    and "valid_time (UTC_midnight y m d)"
  shows "returned_value (addYears 0 n [Some (UTC_midnight y m d)])
    = TimeClip (Some (UTC_midnight (y + n) m d))"
  using addYears_value[OF assms(5), of n] UTC_midnight_fields[OF assms(1-4)]
  by (simp add: UTC_midnight_def)

lemma month_shift_year:
  fixes m k :: int
  assumes "0 \<le> m" and "m \<le> 11" and "0 \<le> k" and "k \<le> 12"
  shows "0 \<le> (m + k) div 12" and "(m + k) div 12 \<le> 1"
proof -
  show "0 \<le> (m + k) div 12" using assms by (simp add: pos_imp_zdiv_nonneg_iff)
  have "(m + k) div 12 \<le> 23 div 12"
    by (rule zdiv_mono1) (use assms in simp_all)
  then show "(m + k) div 12 \<le> 1" by simp
qed

lemma schedule_values:
  fixes y m d :: int
  assumes y: "0 \<le> y" "y \<le> 9999" and m: "0 \<le> m" "m \<le> 11"
    and d: "1 \<le> d" "d \<le> DaysInMonth m (leap y)"
  defines "start \<equiv> UTC_midnight y m d"
  shows "valid_time start"
    and "returned_value (addDays 0 7 [Some start]) = Some (start + 7 * msPerDay)"
    and "0 \<le> k \<Longrightarrow> k \<le> 12 \<Longrightarrow> returned_value (addMonths 0 k [Some start])
          = Some (UTC_midnight (y + (m + k) div 12) ((m + k) mod 12) d)"
    and "returned_value (addYears 0 1 [Some start]) = Some (UTC_midnight (y + 1) m d)"
proof -
  have l: "leap y = 0 \<or> leap y = 1" by (simp add: leap_def)
  have d31: "d \<le> 31" using d(2) DaysInMonth_le_31[OF l, of m] by simp
  show v: "valid_time start"
    unfolding start_def by (rule UTC_midnight_valid) (use y m d d31 in simp_all)
  have "valid_time (UTC_midnight y m (d + 7))"
    by (rule UTC_midnight_valid) (use y m d d31 in simp_all)
  then show "returned_value (addDays 0 7 [Some start]) = Some (start + 7 * msPerDay)"
    using addDays_UTC_midnight[OF v[unfolded start_def], of 7]
    by (simp add: TimeClip_valid start_def UTC_midnight_add_days)
  show "returned_value (addMonths 0 k [Some start])
          = Some (UTC_midnight (y + (m + k) div 12) ((m + k) mod 12) d)"
    if k: "0 \<le> k" "k \<le> 12"
  proof -
    have "valid_time (UTC_midnight (y + (m + k) div 12) ((m + k) mod 12) d)"
      by (rule UTC_midnight_valid)
        (use y d d31 month_shift_year[OF m k] month_mod_range[of "m + k"] in simp_all)
    then show ?thesis
      using addMonths_UTC_midnight[OF m d v[unfolded start_def], of k]
      by (simp add: TimeClip_valid start_def)
  qed
  have "valid_time (UTC_midnight (y + 1) m d)"
    by (rule UTC_midnight_valid) (use y m d d31 in simp_all)
  then show "returned_value (addYears 0 1 [Some start]) = Some (UTC_midnight (y + 1) m d)"
    using addYears_UTC_midnight[OF m d v[unfolded start_def], of 1]
    by (simp add: TimeClip_valid start_def)
qed

text \<open>
  C2. For every string \<^verbatim>\<open>YYYY-MM-DD\<close> of digits that names a day \<open>d\<close> of month \<open>m\<close> of
  year \<open>y\<close> that exists, \<^verbatim>\<open>calculateRevisionDates\<close> parses it to UTC midnight of that day
  and returns five new dates, in this order: the results of \<^verbatim>\<open>addDays(start, 7)\<close>,
  \<^verbatim>\<open>addMonths(start, 1)\<close>, \<^verbatim>\<open>addMonths(start, 3)\<close>, \<^verbatim>\<open>addMonths(start, 6)\<close> and
  \<^verbatim>\<open>addYears(start, 1)\<close>, each the value the call gives on the start date alone. The first
  is the start plus seven days; the others are UTC midnight on day \<open>d\<close> of the shifted
  month or year (beyond that month's end when it has no day \<open>d\<close>).
\<close>

theorem calculateRevisionDates_schedule:
  fixes y m d :: int
  assumes "s = [y1, y2, y3, y4, CHR ''-'', m1, m2, CHR ''-'', d1, d2]"
    and "list_all is_digit [y1, y2, y3, y4, m1, m2, d1, d2]"
    and "y = digits_value [y1, y2, y3, y4]"
    and "m = digits_value [m1, m2]"
    and "d = digits_value [d1, d2]"
    and "1 \<le> m" and "m \<le> 12" and "1 \<le> d" and "d \<le> DaysInMonth (m - 1) (leap y)"
  shows "\<exists>start.
       new_Date_string legacy (s @ ''T00:00:00.000Z'') h = (length h, h @ [Some start])
     \<and> YearFromTime start = y \<and> MonthFromTime start = m - 1 \<and> DateFromTime start = d
     \<and> TimeWithinDay start = 0
     \<and> calculateRevisionDates legacy (JString s) h =
         Inr ([length h + 1, length h + 2, length h + 3, length h + 4, length h + 5],
          h @ [Some start,
               returned_value (addDays 0 7 [Some start]),
               returned_value (addMonths 0 1 [Some start]),
               returned_value (addMonths 0 3 [Some start]),
               returned_value (addMonths 0 6 [Some start]),
               returned_value (addYears 0 1 [Some start])])
     \<and> returned_value (addDays 0 7 [Some start]) = Some (start + 7 * msPerDay)
     \<and> returned_value (addMonths 0 1 [Some start])
         = Some (UTC_midnight (y + (m - 1 + 1) div 12) ((m - 1 + 1) mod 12) d)
     \<and> returned_value (addMonths 0 3 [Some start])
         = Some (UTC_midnight (y + (m - 1 + 3) div 12) ((m - 1 + 3) mod 12) d)
     \<and> returned_value (addMonths 0 6 [Some start])
         = Some (UTC_midnight (y + (m - 1 + 6) div 12) ((m - 1 + 6) mod 12) d)
     \<and> returned_value (addYears 0 1 [Some start]) = Some (UTC_midnight (y + 1) (m - 1) d)"
proof -
  define start where "start = UTC_midnight y (m - 1) d"
  have l: "leap y = 0 \<or> leap y = 1" by (simp add: leap_def)
  have d31: "d \<le> 31" using assms(9) DaysInMonth_le_31[OF l, of "m - 1"] by simp
  have yr: "0 \<le> y" "y \<le> 9999"
    using digits_value_4_range[of y1 y2 y3 y4] assms(2,3) by simp_all
  have mr: "0 \<le> m - 1" "m - 1 \<le> 11" using assms(6,7) by simp_all
  note sv = schedule_values[OF yr mr assms(8,9), folded start_def]
  have parse: "Date_parse legacy (s @ ''T00:00:00.000Z'') = Some start"
    unfolding assms(1) start_def assms(3,4,5)
    by (rule Date_parse_YYYY_MM_DD)
       (use assms(2,6,7,8) d31 in \<open>simp_all add: assms(4,5)[symmetric]\<close>)
  have clip: "TimeClip (Date_parse legacy (s @ ''T00:00:00.000Z'')) = Some start"
    unfolding parse by (rule TimeClip_valid[OF sv(1)])
  note f = UTC_midnight_fields[OF mr assms(8,9), folded start_def]
  have new: "new_Date_string legacy (s @ ''T00:00:00.000Z'') h = (length h, h @ [Some start])"
    by (simp add: new_Date_string_def alloc_def clip)
  have calc: "calculateRevisionDates legacy (JString s) h =
         Inr ([length h + 1, length h + 2, length h + 3, length h + 4, length h + 5],
          h @ [Some start,
               returned_value (addDays 0 7 [Some start]),
               returned_value (addMonths 0 1 [Some start]),
               returned_value (addMonths 0 3 [Some start]),
               returned_value (addMonths 0 6 [Some start]),
               returned_value (addYears 0 1 [Some start])])"
    unfolding calculateRevisionDates_heap clip Let_def by (rule refl)
  show ?thesis
    using new f calc sv(2) sv(3)[of 1] sv(3)[of 3] sv(3)[of 6] sv(4)
    by (intro exI[of _ start]) simp
qed

theorem calculateRevisionDates_schedule_witness:
  "list_all is_digit ''20260719''
   \<and> (1::int) \<le> digits_value ''07'' \<and> digits_value ''07'' \<le> 12
   \<and> (1::int) \<le> digits_value ''19''
   \<and> digits_value ''19'' \<le> DaysInMonth (digits_value ''07'' - 1) (leap (digits_value ''2026''))
   \<and> (\<exists>start. YearFromTime start = 2026 \<and> MonthFromTime start = 6 \<and> DateFromTime start = 19
         \<and> TimeWithinDay start = 0
         \<and> calculateRevisionDates no_heuristics (JString ''2026-07-19'') [] =
             Inr ([1, 2, 3, 4, 5],
              [Some start, Some (start + 7 * msPerDay), Some (UTC_midnight 2026 7 19),
               Some (UTC_midnight 2026 9 19), Some (UTC_midnight 2027 0 19),
               Some (UTC_midnight 2027 6 19)]))"
proof -
  have dv: "digits_value ''2026'' = 2026" "digits_value ''07'' = 7" "digits_value ''19'' = 19"
    by (simp_all add: digits_value_def)
  have dg: "list_all is_digit ''20260719''" by (simp add: is_digit_def)
  have dim: "(19::int) \<le> DaysInMonth 6 (leap 2026)" by (simp add: DaysInMonth_def)
  from calculateRevisionDates_schedule[of "''2026-07-19''" "CHR ''2''" "CHR ''0''" "CHR ''2''"
      "CHR ''6''" "CHR ''0''" "CHR ''7''" "CHR ''1''" "CHR ''9''" 2026 7 19 no_heuristics "[]"]
  obtain start where "YearFromTime start = 2026" "MonthFromTime start = 6"
    "DateFromTime start = 19" "TimeWithinDay start = 0"
    "calculateRevisionDates no_heuristics (JString ''2026-07-19'') [] =
             Inr ([1, 2, 3, 4, 5],
              [Some start, Some (start + 7 * msPerDay), Some (UTC_midnight 2026 7 19),
               Some (UTC_midnight 2026 9 19), Some (UTC_midnight 2027 0 19),
               Some (UTC_midnight 2027 6 19)])"
    using dv dg dim by auto
  then show ?thesis using dv dg dim by auto
qed

lemma formatDate_UTC_midnight:
  assumes "h ! r = Some (UTC_midnight y m d)"
    and "0 \<le> m" and "m \<le> 11" and "1 \<le> d" and "d \<le> DaysInMonth m (leap y)"
  shows "fst (formatDate r h) =
     Number_toString (Some d) @ ordinal_rule d @ '' '' @ monthName m @ '' ''
       @ Number_toString (Some y)"
  using formatDate_valid[OF assms(1)] UTC_midnight_fields[OF assms(2-5)] by simp

lemma schedule_2026_07_19:
  "calculateRevisionDates legacy (JString ''2026-07-19'') h =
     Inr ([length h + 1, length h + 2, length h + 3, length h + 4, length h + 5],
      h @ [Some (UTC_midnight 2026 6 19), Some (UTC_midnight 2026 6 26),
           Some (UTC_midnight 2026 7 19), Some (UTC_midnight 2026 9 19),
           Some (UTC_midnight 2027 0 19), Some (UTC_midnight 2027 6 19)])"
proof -
  have dim: "(19::int) \<le> DaysInMonth 6 (leap 2026)"
    by (simp add: DaysInMonth_def)
  note sv = schedule_values[of 2026 6 19, OF _ _ _ _ _ dim, simplified]
  have clip: "TimeClip (Date_parse legacy (''2026-07-19'' @ ''T00:00:00.000Z''))
      = Some (UTC_midnight 2026 6 19)"
    using TimeClip_valid[OF sv(1)] by (simp add: Date_parse_values)
  have a: "returned_value (addDays 0 7 [Some (UTC_midnight 2026 6 19)])
      = Some (UTC_midnight 2026 6 26)"
    using sv(2) UTC_midnight_add_days[of 2026 6 19 7] by simp
  have b: "returned_value (addMonths 0 1 [Some (UTC_midnight 2026 6 19)])
      = Some (UTC_midnight 2026 7 19)"
    using sv(3)[of 1] by simp
  have c: "returned_value (addMonths 0 3 [Some (UTC_midnight 2026 6 19)])
      = Some (UTC_midnight 2026 9 19)"
    using sv(3)[of 3] by simp
  have d: "returned_value (addMonths 0 6 [Some (UTC_midnight 2026 6 19)])
      = Some (UTC_midnight 2027 0 19)"
    using sv(3)[of 6] by simp
  have e: "returned_value (addYears 0 1 [Some (UTC_midnight 2026 6 19)])
      = Some (UTC_midnight 2027 6 19)"
    using sv(4) by simp
  show ?thesis
    unfolding calculateRevisionDates_heap clip Let_def a b c d e by (rule refl)
qed

text \<open>
  C5. For the start date \<^verbatim>\<open>"2026-07-19"\<close>, \<^verbatim>\<open>calculateRevisionDates\<close> followed by
  \<^verbatim>\<open>formatDate\<close> on each entry gives "26th July 2026", "19th August 2026",
  "19th October 2026", "19th January 2027" and "19th July 2027", in that order,
  whatever \<^verbatim>\<open>Date\<close> objects exist already and whatever the engine's heuristics.
\<close>

theorem rubric_2026_07_19:
  "\<exists>revisionDates h'.
     calculateRevisionDates legacy (JString ''2026-07-19'') h = Inr (revisionDates, h')
     \<and> length revisionDates = 5
     \<and> fst (map_formatDate revisionDates h')
         = [''26th July 2026'', ''19th August 2026'', ''19th October 2026'',
            ''19th January 2027'', ''19th July 2027'']"
proof -
  define h' where "h' = h @ [Some (UTC_midnight 2026 6 19), Some (UTC_midnight 2026 6 26),
           Some (UTC_midnight 2026 7 19), Some (UTC_midnight 2026 9 19),
           Some (UTC_midnight 2027 0 19), Some (UTC_midnight 2027 6 19)]"
  have at: "h' ! (length h + 1) = Some (UTC_midnight 2026 6 26)"
    "h' ! (length h + 2) = Some (UTC_midnight 2026 7 19)"
    "h' ! (length h + 3) = Some (UTC_midnight 2026 9 19)"
    "h' ! (length h + 4) = Some (UTC_midnight 2027 0 19)"
    "h' ! (length h + 5) = Some (UTC_midnight 2027 6 19)"
    by (simp_all add: h'_def nth_append)
  have f1: "fst (formatDate (length h + 1) h') = ''26th July 2026''"
    using formatDate_UTC_midnight[OF at(1)]
    by (simp add: DaysInMonth_def show_26 show_2026 ordinal_rule_def monthName_def)
  have f2: "fst (formatDate (length h + 2) h') = ''19th August 2026''"
    using formatDate_UTC_midnight[OF at(2)]
    by (simp add: DaysInMonth_def show_19 show_2026 ordinal_rule_def monthName_def)
  have f3: "fst (formatDate (length h + 3) h') = ''19th October 2026''"
    using formatDate_UTC_midnight[OF at(3)]
    by (simp add: DaysInMonth_def show_19 show_2026 ordinal_rule_def monthName_def)
  have f4: "fst (formatDate (length h + 4) h') = ''19th January 2027''"
    using formatDate_UTC_midnight[OF at(4)]
    by (simp add: DaysInMonth_def show_19 show_2027 ordinal_rule_def monthName_def)
  have f5: "fst (formatDate (length h + 5) h') = ''19th July 2027''"
    using formatDate_UTC_midnight[OF at(5)]
    by (simp add: DaysInMonth_def show_19 show_2027 ordinal_rule_def monthName_def)
  have "fst (map_formatDate
      [length h + 1, length h + 2, length h + 3, length h + 4, length h + 5] h')
      = [''26th July 2026'', ''19th August 2026'', ''19th October 2026'',
         ''19th January 2027'', ''19th July 2027'']"
    unfolding map_formatDate_fst using f1 f2 f3 f4 f5 by simp
  then show ?thesis
    unfolding schedule_2026_07_19 h'_def[symmetric] by simp
qed

section \<open>Today\<close>

lemma fields_of_Day:
  assumes "Day a = Day b"
  shows "YearFromTime a = YearFromTime b" and "MonthFromTime a = MonthFromTime b"
    and "DateFromTime a = DateFromTime b"
  using assms
  by (simp_all add: YearFromTime_def MonthFromTime_def DateFromTime_def DayWithinYear_def
      InLeapYear_def)

lemma Day_midnight: "Day (Day t * msPerDay) = Day t" "TimeWithinDay (Day t * msPerDay) = 0"
  using Day_compose[of 0 "Day t"] TimeWithinDay_compose[of 0 "Day t"]
  by (simp_all add: msPerDay_def)

lemma valid_time_midnight:
  assumes "valid_time t"
  shows "valid_time (Day t * msPerDay)"
proof -
  have lo: "- 100000000 \<le> Day t"
  proof -
    have "(- 8640000000000000) div 86400000 \<le> t div 86400000"
      by (rule zdiv_mono1) (use assms in \<open>simp_all add: valid_time_def\<close>)
    then show ?thesis by (simp add: Day_def msPerDay_def)
  qed
  have hi: "Day t \<le> 100000000"
  proof -
    have "t div 86400000 \<le> 8640000000000000 div 86400000"
      by (rule zdiv_mono1) (use assms in \<open>simp_all add: valid_time_def\<close>)
    then show ?thesis by (simp add: Day_def msPerDay_def)
  qed
  from lo hi show ?thesis by (simp add: valid_time_def msPerDay_def abs_le_iff)
qed

lemma getTodayUTC_heap:
  assumes "valid_time (currentTime env)"
  shows "getTodayUTC env h =
     (length h + 1,
      h @ [Some (currentTime env),
           Date_UTC (Some (YearFromTime (LocalTime env (currentTime env))))
                    (Some (MonthFromTime (LocalTime env (currentTime env))))
                    (Some (DateFromTime (LocalTime env (currentTime env))))])"
  by (simp add: getTodayUTC_def new_Date_now_def new_Date_number_def alloc_def getFullYear_def
      getMonth_def getDate_def TimeClip_valid[OF assms] Date_UTC_def TimeClip_idem)

lemma getTodayUTC_appends:
  "getTodayUTC env h = (length h + 1, h @ snd (getTodayUTC env []))"
  by (simp add: getTodayUTC_def new_Date_now_def new_Date_number_def alloc_def getFullYear_def
      getMonth_def getDate_def)

lemma Date_UTC_midnight:
  "case Date_UTC y m d of None \<Rightarrow> True | Some t \<Rightarrow> TimeWithinDay t = 0"
  using TimeWithinDay_compose[of 0]
  by (auto simp: Date_UTC_def TimeClip_def MakeDate_def MakeDay_def MakeTime_def MakeFullYear_def
      Let_def msPerDay_def split: option.splits)

lemma Date_UTC_fields:
  assumes "\<not> (0 \<le> YearFromTime t \<and> YearFromTime t \<le> 99)"
  shows "Date_UTC (Some (YearFromTime t)) (Some (MonthFromTime t)) (Some (DateFromTime t))
    = TimeClip (Some (Day t * msPerDay))"
proof -
  have "MakeFullYear (Some (YearFromTime t)) = Some (YearFromTime t)"
    using assms by (auto simp: MakeFullYear_def)
  then show ?thesis
    using MakeDay_from_fields[of t 0] by (simp add: Date_UTC_def MakeDate_def MakeTime_def)
qed

text \<open>
  C7. \<^verbatim>\<open>isFutureDate(date)\<close> is \<^verbatim>\<open>date >= getTodayUTC()\<close>: it is true exactly when both
  are valid dates and the time value of \<open>date\<close> is at least that of today. It is
  inclusive: a date whose time value is today's gives true.
\<close>

theorem isFutureDate_inclusive:
  assumes "date < length h"
  shows "fst (isFutureDate env date h)
           = num_ge (h ! date) (returned_value (getTodayUTC env h))
       \<and> (fst (isFutureDate env date h) \<longleftrightarrow>
            (\<exists>a b. h ! date = Some a \<and> returned_value (getTodayUTC env h) = Some b \<and> b \<le> a))
       \<and> (\<forall>t. h ! date = Some t \<and> returned_value (getTodayUTC env h) = Some t
              \<longrightarrow> fst (isFutureDate env date h))"
proof -
  have "fst (isFutureDate env date h)
           = num_ge (h ! date) (returned_value (getTodayUTC env h))"
    using assms
    by (simp add: isFutureDate_def getTodayUTC_appends[of env h] returned_value_def nth_append)
  then show ?thesis
    by (auto simp: num_ge_def split: option.splits)
qed

lemma fields_2026_07_19_0100:
  "YearFromTime 1784422800000 = 2026" "MonthFromTime 1784422800000 = 6"
  "DateFromTime 1784422800000 = 19"
proof -
  have "Day 1784422800000 = Day 1784419200000" by (simp add: Day_def msPerDay_def)
  from fields_of_Day[OF this]
  show "YearFromTime 1784422800000 = 2026" "MonthFromTime 1784422800000 = 6"
    "DateFromTime 1784422800000 = 19"
    by (simp_all add: fields_2026_07_19)
qed

lemma Date_UTC_2026_07_19: "Date_UTC (Some 2026) (Some 6) (Some 19) = Some 1784419200000"
  using MakeDay_UTC_midnight[of 2026 6 19]
  by (simp add: Date_UTC_def MakeFullYear_def MakeTime_def UTC_midnight_values TimeClip_def)

lemma today_2026_07_19:
  "returned_value (getTodayUTC (host_at 1784422800000 0) h) = Some 1784419200000"
proof -
  have v: "valid_time (currentTime (host_at 1784422800000 0))"
    by (simp add: host_at_def valid_time_def)
  show ?thesis
    unfolding getTodayUTC_heap[OF v]
    by (simp add: returned_value_def host_at_def LocalTime_def fields_2026_07_19_0100
        Date_UTC_2026_07_19 nth_append)
qed

theorem isFutureDate_inclusive_witness:
  "(0::nat) < length [Some (1784419200000::int)]
   \<and> returned_value (getTodayUTC (host_at 1784422800000 0) [Some 1784419200000])
       = Some 1784419200000
   \<and> fst (isFutureDate (host_at 1784422800000 0) 0 [Some 1784419200000])"
  using isFutureDate_inclusive[of 0 "[Some 1784419200000]" "host_at 1784422800000 0"]
    today_2026_07_19[of "[Some 1784419200000]"]
  by (simp add: num_ge_def)

lemma YearFromDay_ge:
  assumes "DayFromYear y \<le> d"
  shows "y \<le> YearFromDay d"
proof (rule ccontr)
  assume "\<not> y \<le> YearFromDay d"
  then have "YearFromDay d + 1 \<le> y" by simp
  then have "DayFromYear (YearFromDay d + 1) \<le> DayFromYear y" by (rule DayFromYear_mono)
  with assms YearFromDay_upper[of d] show False by simp
qed

text \<open>A clock at or after 1970, in a zone within a day of UTC, reads a local year from 1969.\<close>

lemma local_year_of_real_clock:
  assumes "0 \<le> now" and "\<bar>offset\<bar> \<le> msPerDay"
  shows "1969 \<le> YearFromTime (now + offset)"
proof -
  have "- msPerDay \<le> now + offset" using assms by simp
  then have "(- msPerDay) div msPerDay \<le> (now + offset) div msPerDay"
    by (intro zdiv_mono1) (simp_all add: msPerDay_def)
  then have "- 1 \<le> Day (now + offset)" by (simp add: Day_def msPerDay_def)
  moreover have "DayFromYear 1969 = - 365" by (simp add: DayFromYear_def)
  ultimately have "DayFromYear 1969 \<le> Day (now + offset)" by simp
  then show ?thesis unfolding YearFromTime_def by (rule YearFromDay_ge)
qed

lemma getTodayUTC_is_local_midnight:
  assumes "valid_time (currentTime env)"
    and "valid_time (LocalTime env (currentTime env))"
    and "YearFromTime (LocalTime env (currentTime env)) < 0
       \<or> 99 < YearFromTime (LocalTime env (currentTime env))"
  shows "returned_value (getTodayUTC env h)
       = Some (Day (LocalTime env (currentTime env)) * msPerDay)"
    and "midnight_of_day (Day (LocalTime env (currentTime env)) * msPerDay)
           (LocalTime env (currentTime env))"
proof -
  define lt where "lt = LocalTime env (currentTime env)"
  have ny: "\<not> (0 \<le> YearFromTime lt \<and> YearFromTime lt \<le> 99)"
    using assms(3) by (auto simp: lt_def)
  have utc: "Date_UTC (Some (YearFromTime lt)) (Some (MonthFromTime lt)) (Some (DateFromTime lt))
      = Some (Day lt * msPerDay)"
    using Date_UTC_fields[OF ny] TimeClip_valid[OF valid_time_midnight[OF assms(2)]]
    by (simp add: lt_def)
  show "returned_value (getTodayUTC env h)
       = Some (Day (LocalTime env (currentTime env)) * msPerDay)"
    unfolding getTodayUTC_heap[OF assms(1)] lt_def[symmetric] utc
    by (simp add: returned_value_def nth_append)
  show "midnight_of_day (Day (LocalTime env (currentTime env)) * msPerDay)
           (LocalTime env (currentTime env))"
    unfolding lt_def[symmetric] midnight_of_day_def
    using Day_midnight(2)[of lt] fields_of_Day[OF Day_midnight(1)[of lt]] by simp
qed

text \<open>
  C9. \<^verbatim>\<open>getTodayUTC\<close> builds its result from the local year, month and day of the clock
  instant, not from its UTC fields: for every clock the result is \<^verbatim>\<open>Date.UTC\<close> of
  these three. It is UTC midnight of the host's local calendar date (the time value at
  time of day zero whose UTC year, month and day are the local ones) whenever the local
  time is a time value and the local year is not one that \<^verbatim>\<open>Date.UTC\<close> reads as two
  digits (0 to 99); so it is for every clock at or after 1970 in a zone within a day of
  UTC.
\<close>

theorem getTodayUTC_local_date:
  assumes "valid_time (currentTime env)"
  shows "returned_value (getTodayUTC env h)
           = Date_UTC (Some (YearFromTime (LocalTime env (currentTime env))))
                      (Some (MonthFromTime (LocalTime env (currentTime env))))
                      (Some (DateFromTime (LocalTime env (currentTime env))))
       \<and> (valid_time (LocalTime env (currentTime env))
            \<and> (YearFromTime (LocalTime env (currentTime env)) < 0
                 \<or> 99 < YearFromTime (LocalTime env (currentTime env)))
          \<longrightarrow> (\<exists>today. returned_value (getTodayUTC env h) = Some today
                 \<and> today = Day (LocalTime env (currentTime env)) * msPerDay
                 \<and> midnight_of_day today (LocalTime env (currentTime env))))
       \<and> (0 \<le> currentTime env \<and> \<bar>localTZA env (currentTime env)\<bar> \<le> msPerDay
            \<and> valid_time (LocalTime env (currentTime env))
          \<longrightarrow> (\<exists>today. returned_value (getTodayUTC env h) = Some today
                 \<and> today = Day (LocalTime env (currentTime env)) * msPerDay
                 \<and> midnight_of_day today (LocalTime env (currentTime env))))"
proof (intro conjI impI)
  show "returned_value (getTodayUTC env h)
           = Date_UTC (Some (YearFromTime (LocalTime env (currentTime env))))
                      (Some (MonthFromTime (LocalTime env (currentTime env))))
                      (Some (DateFromTime (LocalTime env (currentTime env))))"
    unfolding getTodayUTC_heap[OF assms] by (simp add: returned_value_def nth_append)
next
  assume a: "valid_time (LocalTime env (currentTime env))
            \<and> (YearFromTime (LocalTime env (currentTime env)) < 0
                 \<or> 99 < YearFromTime (LocalTime env (currentTime env)))"
  then show "\<exists>today. returned_value (getTodayUTC env h) = Some today
                 \<and> today = Day (LocalTime env (currentTime env)) * msPerDay
                 \<and> midnight_of_day today (LocalTime env (currentTime env))"
    using getTodayUTC_is_local_midnight[OF assms] by blast
next
  assume a: "0 \<le> currentTime env \<and> \<bar>localTZA env (currentTime env)\<bar> \<le> msPerDay
            \<and> valid_time (LocalTime env (currentTime env))"
  then have "1969 \<le> YearFromTime (LocalTime env (currentTime env))"
    unfolding LocalTime_def by (intro local_year_of_real_clock) simp_all
  then have "YearFromTime (LocalTime env (currentTime env)) < 0
                 \<or> 99 < YearFromTime (LocalTime env (currentTime env))"
    by simp
  with a show "\<exists>today. returned_value (getTodayUTC env h) = Some today
                 \<and> today = Day (LocalTime env (currentTime env)) * msPerDay
                 \<and> midnight_of_day today (LocalTime env (currentTime env))"
    using getTodayUTC_is_local_midnight[OF assms] by blast
qed

lemma fields_2026_07_18_2000:
  "DateFromTime 1784404800000 = 18"
proof -
  have "UTC_midnight 2026 6 18 = 1784332800000"
    by (simp add: UTC_midnight_value DayFromYear_values leap_values DaysBeforeMonth_def)
  moreover have "Day 1784404800000 = Day 1784332800000" by (simp add: Day_def msPerDay_def)
  ultimately show ?thesis
    using fields_of_Day(3)[of 1784404800000 1784332800000] UTC_midnight_fields(3)[of 6 18 2026]
    by (simp add: leap_values DaysInMonth_def)
qed

lemma fields_2026_07_19_0600:
  "YearFromTime 1784440800000 = 2026" "MonthFromTime 1784440800000 = 6"
  "DateFromTime 1784440800000 = 19" "Day 1784440800000 = 20653"
proof -
  show d: "Day 1784440800000 = 20653" by (simp add: Day_def msPerDay_def)
  have "Day 1784440800000 = Day 1784419200000" by (simp add: Day_def msPerDay_def)
  from fields_of_Day[OF this]
  show "YearFromTime 1784440800000 = 2026" "MonthFromTime 1784440800000 = 6"
    "DateFromTime 1784440800000 = 19"
    by (simp_all add: fields_2026_07_19)
qed

theorem getTodayUTC_local_date_witness:
  "valid_time (currentTime (host_at 1784404800000 36000000))
   \<and> 0 \<le> currentTime (host_at 1784404800000 36000000)
   \<and> \<bar>localTZA (host_at 1784404800000 36000000)
        (currentTime (host_at 1784404800000 36000000))\<bar> \<le> msPerDay
   \<and> valid_time (LocalTime (host_at 1784404800000 36000000)
                   (currentTime (host_at 1784404800000 36000000)))
   \<and> returned_value (getTodayUTC (host_at 1784404800000 36000000) []) = Some 1784419200000
   \<and> midnight_of_day 1784419200000 1784440800000
   \<and> DateFromTime 1784419200000 = 19
   \<and> DateFromTime (currentTime (host_at 1784404800000 36000000)) = 18"
proof -
  have lt: "LocalTime (host_at 1784404800000 36000000) 1784404800000 = 1784440800000"
    and now: "currentTime (host_at 1784404800000 36000000) = 1784404800000"
    and off: "localTZA (host_at 1784404800000 36000000) 1784404800000 = 36000000"
    by (simp_all add: LocalTime_def host_at_def)
  have v: "valid_time 1784404800000" "valid_time 1784440800000"
    by (simp_all add: valid_time_def)
  show ?thesis
    using getTodayUTC_local_date[of "host_at 1784404800000 36000000" "[]"]
    by (simp add: lt now off v fields_2026_07_19_0600 fields_2026_07_19 fields_2026_07_18_2000
        msPerDay_def Date_UTC_2026_07_19)
qed

text \<open>
  The two-digit rule of \<^verbatim>\<open>Date.UTC\<close> at work, on a clock no host delivers: on
  1 January of the year 50 the result would be 1 January 1950.
\<close>

lemma fields_0050_01_01:
  "YearFromTime (- 60589296000000) = 50" "MonthFromTime (- 60589296000000) = 0"
  "DateFromTime (- 60589296000000) = 1"
proof -
  have "DayFromYear 50 = - 701265" by (simp add: DayFromYear_def)
  moreover have "leap 50 = 0" by (simp add: leap_def DaysInYear_def)
  ultimately have "UTC_midnight 50 0 1 = - 60589296000000"
    by (simp add: UTC_midnight_value DaysBeforeMonth_def)
  then show "YearFromTime (- 60589296000000) = 50" "MonthFromTime (- 60589296000000) = 0"
    "DateFromTime (- 60589296000000) = 1"
    using UTC_midnight_fields[of 0 1 50] by (simp_all add: DaysInMonth_def)
qed

lemma fields_1950_01_01:
  "UTC_midnight 1950 0 1 = - 631152000000" "YearFromTime (- 631152000000) = 1950"
proof -
  have "DayFromYear 1950 = - 7305" by (simp add: DayFromYear_def)
  moreover have "leap 1950 = 0" by (simp add: leap_def DaysInYear_def)
  ultimately show u: "UTC_midnight 1950 0 1 = - 631152000000"
    by (simp add: UTC_midnight_value DaysBeforeMonth_def)
  then show "YearFromTime (- 631152000000) = 1950"
    using UTC_midnight_fields(1)[of 0 1 1950] by (simp add: DaysInMonth_def)
qed

lemma getTodayUTC_year_50:
  "returned_value (getTodayUTC (host_at (- 60589296000000) 0) []) = Some (- 631152000000)
   \<and> YearFromTime (LocalTime (host_at (- 60589296000000) 0)
                     (currentTime (host_at (- 60589296000000) 0))) = 50
   \<and> YearFromTime (- 631152000000) = 1950"
proof -
  have v: "valid_time (currentTime (host_at (- 60589296000000) 0))"
    by (simp add: host_at_def valid_time_def)
  have utc: "Date_UTC (Some 50) (Some 0) (Some 1) = Some (- 631152000000)"
    using MakeDay_UTC_midnight[of 1950 0 1]
    by (simp add: Date_UTC_def MakeFullYear_def MakeTime_def fields_1950_01_01 TimeClip_def)
  show ?thesis
    unfolding getTodayUTC_heap[OF v]
    by (simp add: returned_value_def host_at_def LocalTime_def fields_0050_01_01 utc
        fields_1950_01_01)
qed

section \<open>Bad input\<close>

lemma schedule_of_start:
  fixes y m d :: int
  assumes "TimeClip (Date_parse legacy (s @ ''T00:00:00.000Z'')) = Some (UTC_midnight y m d)"
    and "0 \<le> y" and "y \<le> 9999" and "0 \<le> m" and "m \<le> 11"
    and "1 \<le> d" and "d \<le> DaysInMonth m (leap y)"
  shows "calculateRevisionDates legacy (JString s) h =
     Inr ([length h + 1, length h + 2, length h + 3, length h + 4, length h + 5],
          h @ [Some (UTC_midnight y m d), Some (UTC_midnight y m (d + 7)),
               Some (UTC_midnight (y + (m + 1) div 12) ((m + 1) mod 12) d),
               Some (UTC_midnight (y + (m + 3) div 12) ((m + 3) mod 12) d),
               Some (UTC_midnight (y + (m + 6) div 12) ((m + 6) mod 12) d),
               Some (UTC_midnight (y + 1) m d)])"
proof -
  note sv = schedule_values[OF assms(2-7)]
  have a: "returned_value (addDays 0 7 [Some (UTC_midnight y m d)])
      = Some (UTC_midnight y m (d + 7))"
    using sv(2) by (simp add: UTC_midnight_add_days)
  show ?thesis
    unfolding calculateRevisionDates_heap assms(1) Let_def a sv(3)[of 1, simplified]
      sv(3)[of 3, simplified] sv(3)[of 6, simplified] sv(4)
    by (rule refl)
qed

lemma show_small:
  "Number_toString (Some 1) = ''1''" "Number_toString (Some 2) = ''2''"
  "Number_toString (Some 8) = ''8''" "Number_toString (Some 9) = ''9''"
  by (simp_all add: Number_toString_def show_nat.simps digit_char_def)

lemma valid_2026: "valid_time (UTC_midnight 2026 m d)" if "0 \<le> m" "m \<le> 11" "1 \<le> d" "d \<le> 40"
  using that by (intro UTC_midnight_valid) simp_all

text \<open>30 February 2026: the parser takes the day as it is, and the date is 2 March.\<close>

lemma schedule_2026_02_30:
  "calculateRevisionDates legacy (JString ''2026-02-30'') h =
     Inr ([length h + 1, length h + 2, length h + 3, length h + 4, length h + 5],
          h @ [Some (UTC_midnight 2026 2 2), Some (UTC_midnight 2026 2 9),
               Some (UTC_midnight 2026 3 2), Some (UTC_midnight 2026 5 2),
               Some (UTC_midnight 2026 8 2), Some (UTC_midnight 2027 2 2)])"
proof -
  have p: "Date_parse legacy (''2026-02-30'' @ ''T00:00:00.000Z'') = Some (UTC_midnight 2026 1 30)"
    using Date_parse_YYYY_MM_DD[of "CHR ''2''" "CHR ''0''" "CHR ''2''" "CHR ''6''"
        "CHR ''0''" "CHR ''2''" "CHR ''3''" "CHR ''0''" legacy]
    by (simp add: is_digit_def digits_value_def)
  have o: "UTC_midnight 2026 1 30 = UTC_midnight 2026 2 2"
    using UTC_midnight_overflow(1)[of 1 2026 30] by (simp add: leap_values DaysInMonth_def)
  have "TimeClip (Date_parse legacy (''2026-02-30'' @ ''T00:00:00.000Z''))
      = Some (UTC_midnight 2026 2 2)"
    unfolding p o by (rule TimeClip_valid) (simp add: valid_2026)
  from schedule_of_start[OF this, of h] show ?thesis
    by (simp add: leap_values DaysInMonth_def)
qed

text \<open>A year alone: the standard format reads it as 1 January.\<close>

lemma schedule_2026:
  "calculateRevisionDates legacy (JString ''2026'') h =
     Inr ([length h + 1, length h + 2, length h + 3, length h + 4, length h + 5],
          h @ [Some (UTC_midnight 2026 0 1), Some (UTC_midnight 2026 0 8),
               Some (UTC_midnight 2026 1 1), Some (UTC_midnight 2026 3 1),
               Some (UTC_midnight 2026 6 1), Some (UTC_midnight 2027 0 1)])"
proof -
  have d: "parse_date_part ''2026'' = Some (2026, 1, 1)"
    by (simp add: parse_date_part_def parse_year_def parse_digits_def is_digit_def
        digits_value_def)
  have p: "Date_parse legacy (''2026'' @ ''T00:00:00.000Z'') = Some (UTC_midnight 2026 0 1)"
    using MakeDay_UTC_midnight[of 2026 0 1]
    by (simp add: Date_parse_def d parse_time_part_midnight MakeTime_def)
  have "TimeClip (Date_parse legacy (''2026'' @ ''T00:00:00.000Z''))
      = Some (UTC_midnight 2026 0 1)"
    unfolding p by (rule TimeClip_valid) (simp add: valid_2026)
  from schedule_of_start[OF this, of h] show ?thesis
    by (simp add: leap_values DaysInMonth_def)
qed

lemma format_list:
  assumes "h' = h @ [v0, Some (UTC_midnight y1 m1 d1), Some (UTC_midnight y2 m2 d2),
      Some (UTC_midnight y3 m3 d3), Some (UTC_midnight y4 m4 d4), Some (UTC_midnight y5 m5 d5)]"
    and "0 \<le> m1 \<and> m1 \<le> 11 \<and> 1 \<le> d1 \<and> d1 \<le> DaysInMonth m1 (leap y1)"
    and "0 \<le> m2 \<and> m2 \<le> 11 \<and> 1 \<le> d2 \<and> d2 \<le> DaysInMonth m2 (leap y2)"
    and "0 \<le> m3 \<and> m3 \<le> 11 \<and> 1 \<le> d3 \<and> d3 \<le> DaysInMonth m3 (leap y3)"
    and "0 \<le> m4 \<and> m4 \<le> 11 \<and> 1 \<le> d4 \<and> d4 \<le> DaysInMonth m4 (leap y4)"
    and "0 \<le> m5 \<and> m5 \<le> 11 \<and> 1 \<le> d5 \<and> d5 \<le> DaysInMonth m5 (leap y5)"
  shows "fst (map_formatDate
       [length h + 1, length h + 2, length h + 3, length h + 4, length h + 5] h')
    = [Number_toString (Some d1) @ ordinal_rule d1 @ '' '' @ monthName m1 @ '' ''
         @ Number_toString (Some y1),
       Number_toString (Some d2) @ ordinal_rule d2 @ '' '' @ monthName m2 @ '' ''
         @ Number_toString (Some y2),
       Number_toString (Some d3) @ ordinal_rule d3 @ '' '' @ monthName m3 @ '' ''
         @ Number_toString (Some y3),
       Number_toString (Some d4) @ ordinal_rule d4 @ '' '' @ monthName m4 @ '' ''
         @ Number_toString (Some y4),
       Number_toString (Some d5) @ ordinal_rule d5 @ '' '' @ monthName m5 @ '' ''
         @ Number_toString (Some y5)]"
proof -
  have at: "h' ! (length h + 1) = Some (UTC_midnight y1 m1 d1)"
    "h' ! (length h + 2) = Some (UTC_midnight y2 m2 d2)"
    "h' ! (length h + 3) = Some (UTC_midnight y3 m3 d3)"
    "h' ! (length h + 4) = Some (UTC_midnight y4 m4 d4)"
    "h' ! (length h + 5) = Some (UTC_midnight y5 m5 d5)"
    by (simp_all add: assms(1) nth_append)
  show ?thesis
    unfolding map_formatDate_fst
    using formatDate_UTC_midnight[OF at(1)] formatDate_UTC_midnight[OF at(2)]
      formatDate_UTC_midnight[OF at(3)] formatDate_UTC_midnight[OF at(4)]
      formatDate_UTC_midnight[OF at(5)] assms(2-6)
    by simp
qed

text \<open>
  C1, as amended. When the engine's parse of \<^verbatim>\<open>dateString + "T00:00:00.000Z"\<close> is
  \<^verbatim>\<open>NaN\<close> (the start is an Invalid Date), \<^verbatim>\<open>calculateRevisionDates\<close> does not raise; it
  returns five dates that are all the invalid date, an error the caller can observe:
  each prints as "NaNth Invalid Date NaN".
\<close>

theorem unparseable_start_date_gives_invalid_dates:
  assumes "TimeClip (Date_parse legacy (s @ ''T00:00:00.000Z'')) = NaN"
  shows "\<exists>revisionDates h'.
       calculateRevisionDates legacy (JString s) h = Inr (revisionDates, h')
     \<and> length revisionDates = 5
     \<and> list_all (\<lambda>r. h' ! r = NaN) revisionDates
     \<and> fst (map_formatDate revisionDates h') = replicate 5 ''NaNth Invalid Date NaN''"
proof -
  define h' where "h' = h @ [None, None, None, None, None, None :: number]"
  have start: "TimeClip (Date_parse legacy (s @ ''T00:00:00.000Z'')) = None"
    using assms by (simp add: NaN_def)
  have heap: "calculateRevisionDates legacy (JString s) h
      = Inr ([length h + 1, length h + 2, length h + 3, length h + 4, length h + 5], h')"
    by (simp add: calculateRevisionDates_heap start addDays_NaN addMonths_NaN addYears_NaN
        Let_def h'_def)
  have all: "list_all (\<lambda>r. h' ! r = None)
      [length h + 1, length h + 2, length h + 3, length h + 4, length h + 5]"
    by (simp add: nth_append h'_def)
  then have fmt: "map (\<lambda>d. fst (formatDate d h'))
      [length h + 1, length h + 2, length h + 3, length h + 4, length h + 5]
      = replicate 5 ''NaNth Invalid Date NaN''"
    by (simp add: formatDate_invalid numeral_eq_Suc)
  show ?thesis
    unfolding heap
    by (intro exI[of _ "[length h + 1, length h + 2, length h + 3, length h + 4, length h + 5]"]
          exI[of _ h'])
       (use all fmt in \<open>simp add: map_formatDate_fst NaN_def del: map_formatDate.simps\<close>)
qed

theorem unparseable_start_date_gives_invalid_dates_witness:
  "TimeClip (Date_parse no_heuristics (''2026-13-45'' @ ''T00:00:00.000Z'')) = NaN
   \<and> (\<exists>revisionDates h'.
         calculateRevisionDates no_heuristics (JString ''2026-13-45'') [] = Inr (revisionDates, h')
       \<and> fst (map_formatDate revisionDates h') = replicate 5 ''NaNth Invalid Date NaN'')"
proof -
  have p: "TimeClip (Date_parse no_heuristics (''2026-13-45'' @ ''T00:00:00.000Z'')) = NaN"
    by (simp add: Date_parse_def parse_date_part_def parse_year_def parse_digits_def is_digit_def
        digits_value_def no_heuristics_def NaN_def TimeClip_def)
  show ?thesis
    using p unparseable_start_date_gives_invalid_dates[OF p, of "[]"] by blast
qed

text \<open>
  C1 as stated fails for a string that names no calendar date but that the parser
  accepts: \<^verbatim>\<open>"2026-02-30"\<close> is read as 2 March 2026, and the call returns a normal
  schedule of five valid dates.
\<close>

theorem unparseable_start_date_counterexample:
  "calculateRevisionDates no_heuristics (JString ''2026-02-30'') [] =
     Inr ([1, 2, 3, 4, 5],
          [Some (UTC_midnight 2026 2 2), Some (UTC_midnight 2026 2 9),
           Some (UTC_midnight 2026 3 2), Some (UTC_midnight 2026 5 2),
           Some (UTC_midnight 2026 8 2), Some (UTC_midnight 2027 2 2)])
   \<and> fst (map_formatDate [1, 2, 3, 4, 5]
           [Some (UTC_midnight 2026 2 2), Some (UTC_midnight 2026 2 9),
            Some (UTC_midnight 2026 3 2), Some (UTC_midnight 2026 5 2),
            Some (UTC_midnight 2026 8 2), Some (UTC_midnight 2027 2 2)])
       = [''9th March 2026'', ''2nd April 2026'', ''2nd June 2026'', ''2nd September 2026'',
          ''2nd March 2027'']"
  using schedule_2026_02_30[of no_heuristics "[]"]
    format_list[of _ "[]" "Some (UTC_midnight 2026 2 2)" 2026 2 9 2026 3 2 2026 5 2 2026 8 2
      2027 2 2, OF refl]
  by (simp add: leap_values DaysInMonth_def show_small show_2026 show_2027 ordinal_rule_def
      monthName_def numeral_2_eq_2 del: map_formatDate.simps)

text \<open>
  C10, as amended. \<^verbatim>\<open>calculateRevisionDates\<close> never throws for a string: it returns
  five \<^verbatim>\<open>Date\<close> objects, and when the engine's parse of the start is \<^verbatim>\<open>NaN\<close> every one
  of the five is an invalid date, so that such input shows only in the \<^verbatim>\<open>NaN\<close> time
  values of the result. (A symbol in place of the string does throw:
  \<open>calculateRevisionDates_symbol\<close>.)
\<close>

theorem calculateRevisionDates_never_throws:
  "\<exists>revisionDates h'.
     calculateRevisionDates legacy (JString s) h = Inr (revisionDates, h')
     \<and> length revisionDates = 5
     \<and> (TimeClip (Date_parse legacy (s @ ''T00:00:00.000Z'')) = NaN \<longrightarrow>
          map (\<lambda>r. h' ! r) revisionDates = [NaN, NaN, NaN, NaN, NaN])"
  by (simp add: calculateRevisionDates_heap Let_def nth_append NaN_def
      addDays_NaN addMonths_NaN addYears_NaN)

theorem calculateRevisionDates_never_throws_witness:
  "TimeClip (Date_parse no_heuristics (''not-a-date'' @ ''T00:00:00.000Z'')) = NaN
   \<and> (\<exists>revisionDates h'.
         calculateRevisionDates no_heuristics (JString ''not-a-date'') [] = Inr (revisionDates, h')
       \<and> map (\<lambda>r. h' ! r) revisionDates = [NaN, NaN, NaN, NaN, NaN])"
proof -
  have p: "TimeClip (Date_parse no_heuristics (''not-a-date'' @ ''T00:00:00.000Z'')) = NaN"
    by (simp add: Date_parse_def parse_date_part_def parse_year_def parse_digits_def is_digit_def
        no_heuristics_def NaN_def TimeClip_def)
  from calculateRevisionDates_never_throws[of no_heuristics "''not-a-date''" "[]"]
  obtain revisionDates h' where
    "calculateRevisionDates no_heuristics (JString ''not-a-date'') [] = Inr (revisionDates, h')"
    "map (\<lambda>r. h' ! r) revisionDates = [NaN, NaN, NaN, NaN, NaN]"
    using p by auto
  then show ?thesis using p by auto
qed

text \<open>
  C10 as stated fails for a malformed string that the parser accepts: \<^verbatim>\<open>"2026"\<close> is not
  of the form \<^verbatim>\<open>YYYY-MM-DD\<close>, is read as 1 January 2026, and gives five valid dates.
\<close>

theorem calculateRevisionDates_never_throws_counterexample:
  "calculateRevisionDates no_heuristics (JString ''2026'') [] =
     Inr ([1, 2, 3, 4, 5],
          [Some (UTC_midnight 2026 0 1), Some (UTC_midnight 2026 0 8),
           Some (UTC_midnight 2026 1 1), Some (UTC_midnight 2026 3 1),
           Some (UTC_midnight 2026 6 1), Some (UTC_midnight 2027 0 1)])
   \<and> fst (map_formatDate [1, 2, 3, 4, 5]
           [Some (UTC_midnight 2026 0 1), Some (UTC_midnight 2026 0 8),
            Some (UTC_midnight 2026 1 1), Some (UTC_midnight 2026 3 1),
            Some (UTC_midnight 2026 6 1), Some (UTC_midnight 2027 0 1)])
       = [''8th January 2026'', ''1st February 2026'', ''1st April 2026'', ''1st July 2026'',
          ''1st January 2027'']"
  using schedule_2026[of no_heuristics "[]"]
    format_list[of _ "[]" "Some (UTC_midnight 2026 0 1)" 2026 0 8 2026 1 1 2026 3 1 2026 6 1
      2027 0 1, OF refl]
  by (simp add: leap_values DaysInMonth_def show_small show_2026 show_2027 ordinal_rule_def
      monthName_def numeral_2_eq_2 del: map_formatDate.simps)

end
